theory Spec2Isabelle
  imports Complex_Main "HOL-Library.Sublist"
begin

section \<open>Log entries and levels (types.ts)\<close>

datatype LogLevel = DEBUG | INFO | WARN | ERROR | FATAL

text \<open>
  A \<open>LogEntry\<close> as declared in the types module. A \<open>Date\<close> is its number of milliseconds
  since the epoch; an optional field is an \<open>option\<close>; the metadata bag is a list of
  key/value pairs. The field \<open>id\<close> is called \<open>entryId\<close> here, since \<open>id\<close> is the identity
  function of HOL.
\<close>

record LogEntry =
  entryId :: string
  timestamp :: int
  level :: LogLevel
  message :: string
  component :: "string option"
  userId :: "string option"
  sessionId :: "string option"
  metadata :: "(string \<times> string) list option"
  stack :: "string option"
  url :: "string option"
  userAgent :: "string option"

text \<open>
  \<open>LoggerConfig\<close>; the fields \<open>level\<close>, \<open>sessionId\<close> and \<open>userId\<close> carry the suffix
  \<open>_cfg\<close> to keep them apart from the fields of an entry. \<open>PartialConfig\<close> is
  \<open>Partial<LoggerConfig>\<close>: every key may be missing.
\<close>

record LoggerConfig =
  level_cfg :: LogLevel
  enableConsole :: bool
  enableStorage :: bool
  enableRemote :: bool
  maxStorageEntries :: int
  remoteEndpoint :: "string option"
  sessionId_cfg :: "string option"
  userId_cfg :: "string option"
  bufferSize :: int
  flushInterval :: int

record PartialConfig =
  p_level :: "LogLevel option"
  p_enableConsole :: "bool option"
  p_enableStorage :: "bool option"
  p_enableRemote :: "bool option"
  p_maxStorageEntries :: "int option"
  p_remoteEndpoint :: "string option"
  p_sessionId :: "string option"
  p_userId :: "string option"
  p_bufferSize :: "int option"
  p_flushInterval :: "int option"

section \<open>The host: console, localStorage, network, window\<close>

text \<open>
  What the browser does is an input of the model. A \<open>Host\<close> fixes the outcome of the
  \<open>k\<close>-th call of \<open>localStorage.setItem\<close> and of the \<open>k\<close>-th \<open>fetch\<close> (counted from 0),
  whether reading the stored session throws (\<open>sessionStorage.getItem\<close> throws, or
  \<open>JSON.parse\<close> rejects the stored text), whether \<open>sessionStorage.setItem\<close> throws, whether
  the methods of \<open>console\<close> throw, and how many nested calls of \<open>StorageAdapter.store\<close> the
  call stack has room for below the first one. A \<open>Browser\<close> is the mutable state the code reaches through globals: the item
  stored under the adapter's key (the entries it serialises to; \<open>JSON.stringify\<close> followed
  by \<open>JSON.parse\<close> gives the entries back), the values passed to \<open>localStorage.setItem\<close>
  so far, the session record in \<open>sessionStorage\<close>, the calls made on \<open>console\<close>, the bodies
  posted, the delays waited, the listeners installed on \<open>window\<close> and \<open>document\<close>, and the
  running interval timers. \<open>getItem\<close> and \<open>removeItem\<close> of \<open>localStorage\<close> are taken not to
  throw.
\<close>

datatype exn =
    QuotaExceededError | StorageFailure | ConsoleFailure | RangeError
  | HttpError | ServerError | AbortError | NetworkError | ThrownNull

datatype setItem_result = Stored | QuotaExceeded | Refused

datatype fetch_result = Response bool bool | Aborted | Unreachable

record Host =
  setItem_outcome :: "nat \<Rightarrow> setItem_result"
  fetch_outcome :: "nat \<Rightarrow> fetch_result"
  console_throws :: bool
  session_load_throws :: bool
  session_setItem_throws :: bool
  stackFrames :: nat

datatype console_method =
    Console_debug | Console_info | Console_warn | Console_error
  | Console_groupCollapsed | Console_table | Console_groupEnd

datatype console_arg =
    BaseMessage LogEntry | StackTrace string | MetadataFor string
  | MetadataTable "(string \<times> string) list" | NoArg | Text string | Thrown exn

text \<open>
  A handler is a closure installed by a Logger instance or by the SessionManager it
  builds, named by that Logger instance. A listener is a handler with the object it is
  installed on and the name of the event.
\<close>

datatype handler =
    ErrorHandler nat | RejectionHandler nat | VisibilityHandler nat | UnloadHandler nat

datatype event_target = Window | Document

text \<open>The session record kept in \<open>sessionStorage\<close>: the keys \<open>id\<close>, \<open>startTime\<close>, \<open>userAgent\<close>, \<open>url\<close>.\<close>

record SessionData =
  stored_id :: string
  stored_startTime :: int
  stored_userAgent :: string
  stored_url :: string

record Browser =
  ls_item :: "LogEntry list option"
  ls_calls :: "LogEntry list list"
  session_item :: "SessionData option"
  console :: "(console_method \<times> console_arg) list"
  requests :: "LogEntry list list"
  delays :: "int list"
  listeners :: "(event_target \<times> string \<times> handler) list"
  intervals :: "nat list"
  timerSeq :: nat

text \<open>
  A call that may throw returns the exception, if any, and the state it leaves.
  The calls of one statement sequence on \<open>console\<close> are made together: with a console
  that throws the first of them throws.
\<close>

definition console_emit ::
  "Host \<Rightarrow> (console_method \<times> console_arg) list \<Rightarrow> Browser \<Rightarrow> exn option \<times> Browser" where
  "console_emit h calls b =
     (if console_throws h then (Some ConsoleFailure, b)
      else (None, b\<lparr>console := console b @ calls\<rparr>))"

definition localStorage_setItem ::
  "Host \<Rightarrow> LogEntry list \<Rightarrow> Browser \<Rightarrow> exn option \<times> Browser" where
  "localStorage_setItem h v b =
     (let b1 = b\<lparr>ls_calls := ls_calls b @ [v]\<rparr>
      in case setItem_outcome h (length (ls_calls b)) of
           Stored \<Rightarrow> (None, b1\<lparr>ls_item := Some v\<rparr>)
         | QuotaExceeded \<Rightarrow> (Some QuotaExceededError, b1)
         | Refused \<Rightarrow> (Some StorageFailure, b1))"

text \<open>\<open>Array.prototype.slice(start)\<close> and \<open>Array.prototype.splice(0, deleteCount)\<close>.\<close>

definition slice_from :: "'a list \<Rightarrow> int \<Rightarrow> 'a list" where
  "slice_from xs start =
     (let len = int (length xs);
          k = (if start < 0 then max (len + start) 0 else min start len)
      in drop (nat k) xs)"

definition splice_front :: "'a list \<Rightarrow> int \<Rightarrow> 'a list" where
  "splice_front xs deleteCount = drop (nat (min (max deleteCount 0) (int (length xs)))) xs"

section \<open>LogBuffer (utils/LogBuffer.ts)\<close>

record LogBuffer =
  buffer :: "LogEntry list"
  maxSize :: int

definition LogBuffer_new :: "int \<Rightarrow> LogBuffer" where
  "LogBuffer_new n = \<lparr>buffer = [], maxSize = max 1 n\<rparr>"

text \<open>\<open>push\<close> appends; \<open>shift\<close> removes the first element (and does nothing on an empty array).\<close>

definition LogBuffer_add :: "LogBuffer \<Rightarrow> LogEntry \<Rightarrow> LogBuffer" where
  "LogBuffer_add b e =
     (let pushed = buffer b @ [e]
      in if int (length pushed) > maxSize b then b\<lparr>buffer := tl pushed\<rparr>
         else b\<lparr>buffer := pushed\<rparr>)"

definition LogBuffer_flush :: "LogBuffer \<Rightarrow> LogEntry list \<times> LogBuffer" where
  "LogBuffer_flush b = (buffer b, b\<lparr>buffer := []\<rparr>)"

definition LogBuffer_clear :: "LogBuffer \<Rightarrow> LogBuffer" where
  "LogBuffer_clear b = b\<lparr>buffer := []\<rparr>"

definition LogBuffer_size :: "LogBuffer \<Rightarrow> int" where
  "LogBuffer_size b = int (length (buffer b))"

definition LogBuffer_isFull :: "LogBuffer \<Rightarrow> bool" where
  "LogBuffer_isFull b = (int (length (buffer b)) \<ge> maxSize b)"

definition LogBuffer_getMaxSize :: "LogBuffer \<Rightarrow> int" where
  "LogBuffer_getMaxSize b = maxSize b"

text \<open>
  The loop of \<open>setMaxSize\<close>: \<open>while (this.buffer.length > this.maxSize) this.buffer.shift()\<close>.
  The bound it runs with is \<open>Math.max(1, maxSize)\<close>, so on the empty array the condition is
  false and the loop stops; the first equation is that case.
\<close>

fun shiftWhileOver :: "int \<Rightarrow> 'a list \<Rightarrow> 'a list" where
  "shiftWhileOver m [] = []"
| "shiftWhileOver m (x # xs) =
     (if int (length (x # xs)) > m then shiftWhileOver m xs else x # xs)"

definition LogBuffer_setMaxSize :: "int \<Rightarrow> LogBuffer \<Rightarrow> LogBuffer" where
  "LogBuffer_setMaxSize n b =
     (let m = max 1 n in b\<lparr>maxSize := m, buffer := shiftWhileOver m (buffer b)\<rparr>)"

section \<open>ConsoleAdapter (adapters/ConsoleAdapter.ts)\<close>

text \<open>
  \<open>ConsoleAdapter.log\<close>: one call of the console method chosen by the level, carrying
  the formatted base message (kept here as the entry it is formatted from); for ERROR
  and FATAL the stack trace when the entry has a non-empty one; then the metadata
  group when the metadata has a key.
\<close>

definition console_method_of :: "LogLevel \<Rightarrow> console_method" where
  "console_method_of l =
     (case l of DEBUG \<Rightarrow> Console_debug | INFO \<Rightarrow> Console_info | WARN \<Rightarrow> Console_warn
      | ERROR \<Rightarrow> Console_error | FATAL \<Rightarrow> Console_error)"

definition ConsoleAdapter_calls :: "LogEntry \<Rightarrow> (console_method \<times> console_arg) list" where
  "ConsoleAdapter_calls e =
     [(console_method_of (level e), BaseMessage e)]
     @ (if level e = ERROR \<or> level e = FATAL then
          (case stack e of None \<Rightarrow> [] | Some s \<Rightarrow>
             if s = [] then [] else [(Console_error, StackTrace s)])
        else [])
     @ (case metadata e of None \<Rightarrow> [] | Some kv \<Rightarrow>
          if kv = [] then []
          else [(Console_groupCollapsed, MetadataFor (message e)),
                (Console_table, MetadataTable kv), (Console_groupEnd, NoArg)])"

definition ConsoleAdapter_log :: "Host \<Rightarrow> LogEntry \<Rightarrow> Browser \<Rightarrow> exn option \<times> Browser" where
  "ConsoleAdapter_log h e b = console_emit h (ConsoleAdapter_calls e) b"

section \<open>StorageAdapter (adapters/StorageAdapter.ts)\<close>

record StorageAdapter =
  maxEntries :: int

definition StorageAdapter_new :: "int \<Rightarrow> StorageAdapter" where
  "StorageAdapter_new n = \<lparr>maxEntries = n\<rparr>"

definition StorageAdapter_retrieve :: "Browser \<Rightarrow> LogEntry list" where
  "StorageAdapter_retrieve b = (case ls_item b of None \<Rightarrow> [] | Some logs \<Rightarrow> logs)"

definition StorageAdapter_clear :: "Browser \<Rightarrow> Browser" where
  "StorageAdapter_clear b = b\<lparr>ls_item := None\<rparr>"

definition StorageAdapter_clearOldEntries :: "Host \<Rightarrow> StorageAdapter \<Rightarrow> Browser \<Rightarrow> Browser" where
  "StorageAdapter_clearOldEntries h a b =
     (let logs = StorageAdapter_retrieve b;
          reducedLogs = slice_from logs (- (maxEntries a div 2))
      in case localStorage_setItem h reducedLogs b of
           (None, b1) \<Rightarrow> b1
         | (Some err, b1) \<Rightarrow> StorageAdapter_clear b1)"

text \<open>
  \<open>store\<close> calls itself from its \<open>catch\<close> block, and nothing bounds the number of nested
  calls but the call stack. The first argument is the number of nested calls of \<open>store\<close>
  the stack still has room for. A call made when there is no room left throws
  \<open>RangeError\<close> where it is made, in the \<open>catch\<close> block of the pending call, so the error
  leaves every pending call of \<open>store\<close> and reaches the caller of the first one.
\<close>

fun StorageAdapter_store ::
  "nat \<Rightarrow> Host \<Rightarrow> StorageAdapter \<Rightarrow> LogEntry \<Rightarrow> Browser \<Rightarrow> exn option \<times> Browser" where
  "StorageAdapter_store frames h a entry b =
     (let pushed = StorageAdapter_retrieve b @ [entry];
          existingLogs =
            (if int (length pushed) > maxEntries a
             then splice_front pushed (int (length pushed) - maxEntries a) else pushed)
      in case localStorage_setItem h existingLogs b of
           (None, b1) \<Rightarrow> (None, b1)
         | (Some err, b1) \<Rightarrow>
             if err = QuotaExceededError
             then (let b2 = StorageAdapter_clearOldEntries h a b1
                   in case frames of
                        0 \<Rightarrow> (Some RangeError, b2)
                      | Suc room \<Rightarrow> StorageAdapter_store room h a entry b2)
             else console_emit h [(Console_error, Text ''Failed to store log entry:'')] b1)"

declare StorageAdapter_store.simps [simp del]

section \<open>RemoteAdapter (adapters/RemoteAdapter.ts)\<close>

record RemoteAdapter =
  endpoint :: "string option"
  retryAttempts :: int
  retryDelay :: int
  timeout :: int

definition RemoteAdapter_new :: "string option \<Rightarrow> RemoteAdapter" where
  "RemoteAdapter_new ep = \<lparr>endpoint = ep, retryAttempts = 3, retryDelay = 1000, timeout = 5000\<rparr>"

definition RemoteAdapter_setRetryConfig :: "int \<Rightarrow> int \<Rightarrow> RemoteAdapter \<Rightarrow> RemoteAdapter" where
  "RemoteAdapter_setRetryConfig attempts d ra =
     ra\<lparr>retryAttempts := max 1 attempts, retryDelay := max 100 d\<rparr>"

text \<open>
  \<open>makeRequest\<close> posts the batch and throws unless the response is \<open>ok\<close> and its body
  has no truthy \<open>error\<close> field; an aborted (timed out) or failed \<open>fetch\<close> throws as well.
\<close>

definition succeeded :: "fetch_result \<Rightarrow> bool" where
  "succeeded r = (case r of Response ok err \<Rightarrow> ok \<and> \<not> err | Aborted \<Rightarrow> False | Unreachable \<Rightarrow> False)"

definition request_error :: "fetch_result \<Rightarrow> exn" where
  "request_error r =
     (case r of Response ok err \<Rightarrow> (if \<not> ok then HttpError else ServerError)
      | Aborted \<Rightarrow> AbortError | Unreachable \<Rightarrow> NetworkError)"

definition RemoteAdapter_makeRequest ::
  "Host \<Rightarrow> LogEntry list \<Rightarrow> Browser \<Rightarrow> exn option \<times> Browser" where
  "RemoteAdapter_makeRequest h payload b =
     (let r = fetch_outcome h (length (requests b));
          b1 = b\<lparr>requests := requests b @ [payload]\<rparr>
      in if succeeded r then (None, b1) else (Some (request_error r), b1))"

definition RemoteAdapter_delay :: "int \<Rightarrow> Browser \<Rightarrow> Browser" where
  "RemoteAdapter_delay ms b = b\<lparr>delays := delays b @ [ms]\<rparr>"

text \<open>The \<open>for\<close> loop of \<open>sendBatch\<close>, entered with \<open>attempt = 1\<close> and \<open>lastError = null\<close>.\<close>

function sendBatch_loop ::
  "Host \<Rightarrow> RemoteAdapter \<Rightarrow> LogEntry list \<Rightarrow> int \<Rightarrow> exn option \<Rightarrow> Browser
     \<Rightarrow> exn option \<times> Browser" where
  "sendBatch_loop h ra payload attempt lastError b =
     (if attempt \<le> retryAttempts ra then
        (case RemoteAdapter_makeRequest h payload b of
           (None, b1) \<Rightarrow> (None, b1)
         | (Some err, b1) \<Rightarrow>
             sendBatch_loop h ra payload (attempt + 1) (Some err)
               (if attempt < retryAttempts ra
                then RemoteAdapter_delay (retryDelay ra * attempt) b1 else b1))
      else (Some (case lastError of None \<Rightarrow> ThrownNull | Some err \<Rightarrow> err), b))"
  by pat_completeness auto
termination
  by (relation "measure (\<lambda>(h, ra, payload, attempt, lastError, b).
        nat (retryAttempts ra + 1 - attempt))") auto

declare sendBatch_loop.simps [simp del]

definition RemoteAdapter_sendBatch ::
  "Host \<Rightarrow> RemoteAdapter \<Rightarrow> LogEntry list \<Rightarrow> Browser \<Rightarrow> exn option \<times> Browser" where
  "RemoteAdapter_sendBatch h ra entries b =
     (if endpoint ra = None \<or> endpoint ra = Some [] \<or> entries = [] then (None, b)
      else sendBatch_loop h ra entries 1 None b)"


section \<open>SessionManager (utils/SessionManager.ts)\<close>

text \<open>
  What the code reads from its surroundings when it runs: the clock, the id that
  \<open>Logger.generateId\<close> builds from the clock and \<open>Math.random\<close>, the one that
  \<open>SessionManager.generateSessionId\<close> builds, the page address, the user agent, the
  stack of a fresh \<open>Error\<close>, and the local calendar: the year, month and day of the month
  of a \<open>Date\<close>.
\<close>

record Ambient =
  dateNow :: int
  generatedId :: string
  generatedSessionId :: string
  locationHref :: string
  navigatorUserAgent :: string
  errorStack :: "string option"
  calendarDate :: "int \<Rightarrow> int \<times> int \<times> int"

text \<open>The field \<open>sessionId\<close> of the class is \<open>sessionId_sm\<close> here.\<close>

record SessionManager =
  sessionId_sm :: string
  sessionStartTime :: int

definition SessionManager_isSameDay :: "Ambient \<Rightarrow> int \<Rightarrow> int \<Rightarrow> bool" where
  "SessionManager_isSameDay amb date1 date2 =
     (fst (calendarDate amb date1) = fst (calendarDate amb date2)
      \<and> fst (snd (calendarDate amb date1)) = fst (snd (calendarDate amb date2))
      \<and> snd (snd (calendarDate amb date1)) = snd (snd (calendarDate amb date2)))"

definition SessionManager_createNewSession ::
  "Host \<Rightarrow> Ambient \<Rightarrow> int \<Rightarrow> Browser \<Rightarrow> exn option \<times> string \<times> Browser" where
  "SessionManager_createNewSession h amb startTime b =
     (let sid = generatedSessionId amb;
          sessionData = \<lparr>stored_id = sid, stored_startTime = startTime,
                         stored_userAgent = navigatorUserAgent amb,
                         stored_url = locationHref amb\<rparr>
      in if session_setItem_throws h then
           (case console_emit h [(Console_warn, Text ''Failed to store session data:'')] b of
              (r, b1) \<Rightarrow> (r, sid, b1))
         else (None, sid, b\<lparr>session_item := Some sessionData\<rparr>))"

definition SessionManager_loadOrCreateSession ::
  "Host \<Rightarrow> Ambient \<Rightarrow> int \<Rightarrow> Browser \<Rightarrow> exn option \<times> string \<times> Browser" where
  "SessionManager_loadOrCreateSession h amb startTime b =
     (if session_load_throws h then
        (case console_emit h [(Console_warn, Text ''Failed to load existing session:'')] b of
           (Some err, b1) \<Rightarrow> (Some err, [], b1)
         | (None, b1) \<Rightarrow> SessionManager_createNewSession h amb startTime b1)
      else
        (case session_item b of
           None \<Rightarrow> SessionManager_createNewSession h amb startTime b
         | Some session \<Rightarrow>
             if SessionManager_isSameDay amb (stored_startTime session) (dateNow amb)
             then (None, stored_id session, b)
             else SessionManager_createNewSession h amb startTime b))"

definition SessionManager_trackPageVisibility :: "nat \<Rightarrow> Browser \<Rightarrow> Browser" where
  "SessionManager_trackPageVisibility owner b =
     b\<lparr>listeners := listeners b
          @ [(Document, ''visibilitychange'', VisibilityHandler owner),
             (Window, ''beforeunload'', UnloadHandler owner)]\<rparr>"

text \<open>
  The constructor; \<open>owner\<close> names the Logger that builds the SessionManager. When
  \<open>console.warn\<close> throws in \<open>createNewSession\<close> the constructor throws, and the result is
  the exception with the state left.
\<close>

definition SessionManager_new ::
  "Host \<Rightarrow> Ambient \<Rightarrow> nat \<Rightarrow> Browser \<Rightarrow> exn \<times> Browser + SessionManager \<times> Browser" where
  "SessionManager_new h amb owner b =
     (let startTime = dateNow amb
      in case SessionManager_loadOrCreateSession h amb startTime b of
           (Some err, sid, b1) \<Rightarrow> Inl (err, b1)
         | (None, sid, b1) \<Rightarrow>
             Inr (\<lparr>sessionId_sm = sid, sessionStartTime = startTime\<rparr>,
                  SessionManager_trackPageVisibility owner b1))"

section \<open>Logger (core/Logger.ts)\<close>

text \<open>
  The fields of a Logger that the operations below read or write. \<open>self\<close> is the identity
  of the instance (the \<open>this\<close> its closures capture); \<open>logBuffer\<close> is the field \<open>buffer\<close>.
  The console adapter and the formatter have no state.
\<close>

record Logger =
  self :: nat
  config :: LoggerConfig
  storageAdapter :: StorageAdapter
  remoteAdapter :: RemoteAdapter
  logBuffer :: LogBuffer
  sessionManager :: SessionManager
  flushTimer :: "nat option"

definition defaultConfig :: LoggerConfig where
  "defaultConfig =
     \<lparr>level_cfg = INFO, enableConsole = True, enableStorage = True, enableRemote = False,
      maxStorageEntries = 1000, remoteEndpoint = None, sessionId_cfg = None,
      userId_cfg = None, bufferSize = 50, flushInterval = 5000\<rparr>"

definition orElse :: "'a option \<Rightarrow> 'a \<Rightarrow> 'a" where
  "orElse x d = (case x of None \<Rightarrow> d | Some v \<Rightarrow> v)"

definition spreadConfig :: "LoggerConfig \<Rightarrow> PartialConfig \<Rightarrow> LoggerConfig" where
  "spreadConfig c p =
     \<lparr>level_cfg = orElse (p_level p) (level_cfg c),
      enableConsole = orElse (p_enableConsole p) (enableConsole c),
      enableStorage = orElse (p_enableStorage p) (enableStorage c),
      enableRemote = orElse (p_enableRemote p) (enableRemote c),
      maxStorageEntries = orElse (p_maxStorageEntries p) (maxStorageEntries c),
      remoteEndpoint = (case p_remoteEndpoint p of None \<Rightarrow> remoteEndpoint c | Some v \<Rightarrow> Some v),
      sessionId_cfg = (case p_sessionId p of None \<Rightarrow> sessionId_cfg c | Some v \<Rightarrow> Some v),
      userId_cfg = (case p_userId p of None \<Rightarrow> userId_cfg c | Some v \<Rightarrow> Some v),
      bufferSize = orElse (p_bufferSize p) (bufferSize c),
      flushInterval = orElse (p_flushInterval p) (flushInterval c)\<rparr>"

text \<open>\<open>setInterval\<close> hands out a fresh positive id and starts the timer.\<close>

definition Logger_initializeAutoFlush :: "Logger \<Rightarrow> Browser \<Rightarrow> Logger \<times> Browser" where
  "Logger_initializeAutoFlush lg b =
     (if flushInterval (config lg) > 0 then
        (let t = Suc (timerSeq b)
         in (lg\<lparr>flushTimer := Some t\<rparr>, b\<lparr>timerSeq := t, intervals := intervals b @ [t]\<rparr>))
      else (lg, b))"

definition Logger_setupErrorHandlers :: "Logger \<Rightarrow> Browser \<Rightarrow> Browser" where
  "Logger_setupErrorHandlers lg b =
     b\<lparr>listeners := listeners b
          @ [(Window, ''error'', ErrorHandler (self lg)),
             (Window, ''unhandledrejection'', RejectionHandler (self lg))]\<rparr>"

text \<open>
  The constructor, in the order of the source: the configuration, the adapters, the
  buffer, the SessionManager, the session id, the flush timer, the error handlers. If the
  constructor of the SessionManager throws, so does this one.
\<close>

definition Logger_new ::
  "Host \<Rightarrow> nat \<Rightarrow> PartialConfig \<Rightarrow> Ambient \<Rightarrow> Browser \<Rightarrow> exn \<times> Browser + Logger \<times> Browser" where
  "Logger_new h this p amb b =
     (let c = spreadConfig defaultConfig p
      in case SessionManager_new h amb this b of
           Inl (err, b1) \<Rightarrow> Inl (err, b1)
         | Inr (sm, b1) \<Rightarrow>
             (let lg = \<lparr>self = this, config = c\<lparr>sessionId_cfg := Some (sessionId_sm sm)\<rparr>,
                        storageAdapter = StorageAdapter_new (maxStorageEntries c),
                        remoteAdapter = RemoteAdapter_new (remoteEndpoint c),
                        logBuffer = LogBuffer_new (bufferSize c),
                        sessionManager = sm,
                        flushTimer = None\<rparr>
              in case Logger_initializeAutoFlush lg b1 of
                   (lg1, b2) \<Rightarrow> Inr (lg1, Logger_setupErrorHandlers lg1 b2)))"

text \<open>\<open>Array.prototype.indexOf\<close>, \<open>-1\<close> when the element is missing.\<close>

fun indexOf :: "'a list \<Rightarrow> 'a \<Rightarrow> int" where
  "indexOf [] x = - 1"
| "indexOf (y # ys) x =
     (if y = x then 0 else (let i = indexOf ys x in if i < 0 then - 1 else i + 1))"

definition Logger_shouldLog :: "LoggerConfig \<Rightarrow> LogLevel \<Rightarrow> bool" where
  "Logger_shouldLog c l =
     (let levels = [DEBUG, INFO, WARN, ERROR, FATAL];
          currentLevelIndex = indexOf levels (level_cfg c);
          messageLevelIndex = indexOf levels l
      in messageLevelIndex \<ge> currentLevelIndex)"

definition Logger_createLogEntry ::
  "LoggerConfig \<Rightarrow> Ambient \<Rightarrow> LogLevel \<Rightarrow> string \<Rightarrow> string option
     \<Rightarrow> (string \<times> string) list option \<Rightarrow> LogEntry" where
  "Logger_createLogEntry c amb l msg cname meta =
     \<lparr>entryId = generatedId amb, timestamp = dateNow amb, level = l, message = msg,
      component = cname, userId = userId_cfg c, sessionId = sessionId_cfg c,
      metadata = meta,
      stack = (if l = ERROR \<or> l = FATAL then errorStack amb else None),
      url = Some (locationHref amb), userAgent = Some (navigatorUserAgent amb)\<rparr>"

text \<open>
  \<open>flush\<close>. Its \<open>catch\<close> block is a definition of its own: it runs when the promise of
  \<open>sendBatch\<close> is rejected, on the Logger as it is at that moment.
\<close>

definition Logger_flush_catch ::
  "Host \<Rightarrow> LogEntry list \<Rightarrow> Logger \<Rightarrow> Browser \<Rightarrow> exn option \<times> Logger \<times> Browser" where
  "Logger_flush_catch h entries lg b =
     (let lg1 = lg\<lparr>logBuffer := foldl LogBuffer_add (logBuffer lg) entries\<rparr>
      in case console_emit h
                [(Console_warn, Text ''Failed to send logs to remote endpoint:'')] b of
           (r, b1) \<Rightarrow> (r, lg1, b1))"

definition Logger_flush :: "Host \<Rightarrow> Logger \<Rightarrow> Browser \<Rightarrow> exn option \<times> Logger \<times> Browser" where
  "Logger_flush h lg b =
     (if enableRemote (config lg) \<and> LogBuffer_size (logBuffer lg) > 0 then
        (case LogBuffer_flush (logBuffer lg) of
           (entries, emptied) \<Rightarrow>
             (let lg1 = lg\<lparr>logBuffer := emptied\<rparr>
              in case RemoteAdapter_sendBatch h (remoteAdapter lg1) entries b of
                   (None, b1) \<Rightarrow> (None, lg1, b1)
                 | (Some err, b1) \<Rightarrow> Logger_flush_catch h entries lg1 b1))
      else (None, lg, b))"

text \<open>
  \<open>processLogEntry\<close> is an \<open>async\<close> function: what it throws rejects its promise. The
  first component of the result is that rejection, if any. The awaited flush is run to
  its end.
\<close>

definition Logger_processLogEntry ::
  "Host \<Rightarrow> Logger \<Rightarrow> LogEntry \<Rightarrow> Browser \<Rightarrow> exn option \<times> Logger \<times> Browser" where
  "Logger_processLogEntry h lg entry b =
     (let lg1 = lg\<lparr>logBuffer := LogBuffer_add (logBuffer lg) entry\<rparr>
      in case (if enableConsole (config lg1) then ConsoleAdapter_log h entry b else (None, b)) of
           (Some err, b1) \<Rightarrow> (Some err, lg1, b1)
         | (None, b1) \<Rightarrow>
             (case (if enableStorage (config lg1)
                    then StorageAdapter_store (stackFrames h) h (storageAdapter lg1) entry b1
                    else (None, b1)) of
                (Some err, b2) \<Rightarrow> (Some err, lg1, b2)
              | (None, b2) \<Rightarrow>
                  if enableRemote (config lg1) \<and> LogBuffer_isFull (logBuffer lg1)
                  then Logger_flush h lg1 b2 else (None, lg1, b2)))"

text \<open>
  \<open>log\<close>. The first component of the result is what the call throws to its caller.
  The handler given to \<open>.catch\<close> reports a rejection on \<open>console.error\<close>; if that throws
  too, the rejected promise is one nobody holds.
\<close>

definition Logger_log ::
  "Host \<Rightarrow> Logger \<Rightarrow> Ambient \<Rightarrow> LogLevel \<Rightarrow> string \<Rightarrow> string option
     \<Rightarrow> (string \<times> string) list option \<Rightarrow> Browser
     \<Rightarrow> exn option \<times> Logger \<times> Browser" where
  "Logger_log h lg amb l msg cname meta b =
     (if \<not> Logger_shouldLog (config lg) l then (None, lg, b)
      else
        (case Logger_processLogEntry h lg
                (Logger_createLogEntry (config lg) amb l msg cname meta) b of
           (None, lg1, b1) \<Rightarrow> (None, lg1, b1)
         | (Some err, lg1, b1) \<Rightarrow>
             (None, lg1,
               snd (console_emit h
                      [(Console_error, Text ''Failed to process log entry:'')] b1))))"

text \<open>
  \<open>getLogs\<close>: the optional filter is the predicate given to \<open>Array.prototype.filter\<close>;
  \<open>sort\<close> with the comparator \<open>b.timestamp - a.timestamp\<close> is a stable sort by
  descending timestamp.
\<close>

definition Logger_getLogs :: "(LogEntry \<Rightarrow> bool) option \<Rightarrow> Browser \<Rightarrow> LogEntry list" where
  "Logger_getLogs flt b =
     (let logs = StorageAdapter_retrieve b;
          logs1 = (case flt of None \<Rightarrow> logs | Some p \<Rightarrow> filter p logs)
      in sort_key (\<lambda>e. - timestamp e) logs1)"

definition Logger_clearLogs :: "Logger \<Rightarrow> Browser \<Rightarrow> Logger \<times> Browser" where
  "Logger_clearLogs lg b =
     (lg\<lparr>logBuffer := LogBuffer_clear (logBuffer lg)\<rparr>, StorageAdapter_clear b)"

definition Logger_destroy :: "Host \<Rightarrow> Logger \<Rightarrow> Browser \<Rightarrow> Logger \<times> Browser" where
  "Logger_destroy h lg b =
     (let b1 = (case flushTimer lg of None \<Rightarrow> b
                | Some t \<Rightarrow> b\<lparr>intervals := removeAll t (intervals b)\<rparr>)
      in case Logger_flush h lg b1 of
           (None, lg1, b2) \<Rightarrow> (lg1, b2)
         | (Some err, lg1, b2) \<Rightarrow>
             (lg1, snd (console_emit h [(Console_error, Thrown err)] b2)))"

section \<open>PerformanceTracker (utils/PerformanceTracker.ts)\<close>

text \<open>
  The tracker holds the map of running measurements and a logger; the calls it makes on
  the logger are kept in order, each with its level, message and component. A reading of
  \<open>performance.now()\<close> is an argument of the operation that takes it.
\<close>

record PerformanceTracker =
  measurements :: "string \<rightharpoonup> real"
  loggerCalls :: "(LogLevel \<times> string \<times> string) list"

definition tracker_logs :: "LogLevel \<Rightarrow> string \<Rightarrow> PerformanceTracker \<Rightarrow> PerformanceTracker" where
  "tracker_logs l msg t = t\<lparr>loggerCalls := loggerCalls t @ [(l, msg, ''PerformanceTracker'')]\<rparr>"

definition PerformanceTracker_start :: "real \<Rightarrow> string \<Rightarrow> PerformanceTracker \<Rightarrow> PerformanceTracker" where
  "PerformanceTracker_start now label t =
     tracker_logs DEBUG (''Performance tracking started: '' @ label)
       (t\<lparr>measurements := (measurements t)(label \<mapsto> now)\<rparr>)"

text \<open>
  \<open>end\<close>: the test \<open>!startTime\<close> is true for a missing label (\<open>undefined\<close>) and for a stored
  reading of \<open>0\<close>; both take the branch that warns and returns \<open>0\<close>.
\<close>

definition PerformanceTracker_end ::
  "real \<Rightarrow> string \<Rightarrow> PerformanceTracker \<Rightarrow> real \<times> PerformanceTracker" where
  "PerformanceTracker_end now label t =
     (let unknown =
            (0, tracker_logs WARN (''No start time found for performance label: '' @ label) t)
      in case measurements t label of
           None \<Rightarrow> unknown
         | Some startTime \<Rightarrow>
             if startTime = 0 then unknown
             else
               (let endTime = now; duration = endTime - startTime
                in (duration,
                    tracker_logs INFO (''Performance measurement: '' @ label)
                      (t\<lparr>measurements := (measurements t)(label := None)\<rparr>))))"

text \<open>
  \<open>measure\<close>: what the call of \<open>fn\<close> does is one of four things: it returns a value that
  is not a promise, it throws, or it returns a promise that is later fulfilled or
  rejected. The result is the value or the error the caller gets (for a promise, what it
  settles to), with the tracker after the \<open>then\<close>/\<open>catch\<close> handler has run. \<open>startNow\<close>
  and \<open>endNow\<close> are the two readings of the clock.
\<close>

datatype ('a, 'e) called = Returns 'a | Throws 'e | Fulfils 'a | Rejects 'e

definition PerformanceTracker_measure ::
  "real \<Rightarrow> real \<Rightarrow> string \<Rightarrow> ('a, 'e) called \<Rightarrow> PerformanceTracker
     \<Rightarrow> ('e + 'a) \<times> PerformanceTracker" where
  "PerformanceTracker_measure startNow endNow label fn t =
     (let t1 = PerformanceTracker_start startNow label t;
          t2 = snd (PerformanceTracker_end endNow label t1);
          failed = tracker_logs ERROR (''Performance measurement failed: '' @ label) t2
      in case fn of
           Returns v \<Rightarrow> (Inr v, t2)
         | Fulfils v \<Rightarrow> (Inr v, t2)
         | Throws err \<Rightarrow> (Inl err, failed)
         | Rejects err \<Rightarrow> (Inl err, failed))"

definition PerformanceTracker_getActiveMeasurements :: "PerformanceTracker \<Rightarrow> string set" where
  "PerformanceTracker_getActiveMeasurements t = dom (measurements t)"

section \<open>Vocabulary of the properties\<close>

text \<open>The last \<open>m\<close> elements of a list, and the order of the levels as the specification gives it.\<close>

definition keepLast :: "nat \<Rightarrow> 'a list \<Rightarrow> 'a list" where
  "keepLast m xs = drop (length xs - m) xs"

fun severity :: "LogLevel \<Rightarrow> nat" where
  "severity DEBUG = 0"
| "severity INFO = 1"
| "severity WARN = 2"
| "severity ERROR = 3"
| "severity FATAL = 4"

text \<open>Storing a sequence of entries one after the other; \<open>None\<close> if a call throws.\<close>

fun store_all :: "Host \<Rightarrow> StorageAdapter \<Rightarrow> LogEntry list \<Rightarrow> Browser \<Rightarrow> Browser option" where
  "store_all h a [] b = Some b"
| "store_all h a (e # es) b =
     (case StorageAdapter_store (stackFrames h) h a e b of
        (None, b1) \<Rightarrow> store_all h a es b1
      | (Some err, b1) \<Rightarrow> None)"


text \<open>Concrete hosts, states and entries for the examples.\<close>

definition sample_entry :: "string \<Rightarrow> int \<Rightarrow> LogEntry" where
  "sample_entry name t =
     \<lparr>entryId = name, timestamp = t, level = INFO, message = name, component = None,
      userId = None, sessionId = None, metadata = None, stack = None, url = None,
      userAgent = None\<rparr>"

definition fresh_browser :: Browser where
  "fresh_browser =
     \<lparr>ls_item = None, ls_calls = [], session_item = None, console = [], requests = [],
      delays = [], listeners = [], intervals = [], timerSeq = 0\<rparr>"

definition accepting_host :: Host where
  "accepting_host =
     \<lparr>setItem_outcome = (\<lambda>k. Stored), fetch_outcome = (\<lambda>k. Response True False),
      console_throws = False, session_load_throws = False,
      session_setItem_throws = False, stackFrames = 3\<rparr>"

definition exhausted_host :: Host where
  "exhausted_host =
     \<lparr>setItem_outcome = (\<lambda>k. QuotaExceeded), fetch_outcome = (\<lambda>k. Unreachable),
      console_throws = False, session_load_throws = False,
      session_setItem_throws = False, stackFrames = 3\<rparr>"

definition flaky_host :: Host where
  "flaky_host =
     \<lparr>setItem_outcome = (\<lambda>k. if k = 0 then QuotaExceeded else Stored),
      fetch_outcome = (\<lambda>k. if k < 2 then Response False False else Response True False),
      console_throws = False, session_load_throws = False,
      session_setItem_throws = False, stackFrames = 3\<rparr>"

definition no_overrides :: PartialConfig where
  "no_overrides =
     \<lparr>p_level = None, p_enableConsole = None, p_enableStorage = None,
      p_enableRemote = None, p_maxStorageEntries = None, p_remoteEndpoint = None,
      p_sessionId = None, p_userId = None, p_bufferSize = None, p_flushInterval = None\<rparr>"

definition sample_ambient :: Ambient where
  "sample_ambient =
     \<lparr>dateNow = 1700000000000, generatedId = ''1700000000000-k3j9x2q1z'',
      generatedSessionId = ''lozkli68-k3j9x2q1z'',
      locationHref = ''http://localhost:3000/'', navigatorUserAgent = ''Mozilla/5.0'',
      errorStack = Some ''Error at Logger.createLogEntry'',
      calendarDate = (\<lambda>t. (2023, 10, 14))\<rparr>"

definition empty_tracker :: PerformanceTracker where
  "empty_tracker = \<lparr>measurements = Map.empty, loggerCalls = []\<rparr>"


definition remote_logger :: Logger where
  "remote_logger =
     \<lparr>self = 1,
      config = defaultConfig\<lparr>enableRemote := True,
                 remoteEndpoint := Some ''https://logs.example/ingest'', bufferSize := 2\<rparr>,
      storageAdapter = StorageAdapter_new 1000,
      remoteAdapter = RemoteAdapter_new (Some ''https://logs.example/ingest''),
      logBuffer = \<lparr>buffer = [sample_entry ''A'' 1, sample_entry ''B'' 2], maxSize = 2\<rparr>,
      sessionManager = \<lparr>sessionId_sm = ''lozkli68-k3j9x2q1z'', sessionStartTime = 1700000000000\<rparr>,
      flushTimer = None\<rparr>"

definition stocked_browser :: Browser where
  "stocked_browser = fresh_browser\<lparr>ls_item := Some [sample_entry ''A'' 1, sample_entry ''B'' 2]\<rparr>"

definition hostile_host :: Host where
  "hostile_host =
     \<lparr>setItem_outcome = (\<lambda>k. Refused), fetch_outcome = (\<lambda>k. Unreachable),
      console_throws = True, session_load_throws = True,
      session_setItem_throws = True, stackFrames = 3\<rparr>"

definition plain_logger :: Logger where
  "plain_logger =
     \<lparr>self = 1, config = defaultConfig, storageAdapter = StorageAdapter_new 1000,
      remoteAdapter = RemoteAdapter_new None, logBuffer = LogBuffer_new 50,
      sessionManager = \<lparr>sessionId_sm = ''lozkli68-k3j9x2q1z'', sessionStartTime = 1700000000000\<rparr>,
      flushTimer = Some 1\<rparr>"

definition unstored_logger :: Logger where
  "unstored_logger = plain_logger\<lparr>config := defaultConfig\<lparr>enableStorage := False\<rparr>\<rparr>"

section \<open>The ring buffer is bounded and drops the oldest entry\<close>

lemma keepLast_append_keepLast:
  "keepLast m (keepLast m xs @ es) = keepLast m (xs @ es)"
proof (cases "length xs \<le> m")
  case True
  then show ?thesis by (simp add: keepLast_def)
next
  case False
  then have "length (drop (length xs - m) xs) = m" by simp
  then show ?thesis using False by (simp add: keepLast_def add.commute)
qed

lemma push_shift_keepLast:
  assumes "1 \<le> m" and "length xs \<le> m"
  shows "(if length xs < m then xs @ [e] else tl (xs @ [e])) = keepLast m (xs @ [e])"
  using assms by (cases xs) (auto simp: keepLast_def Suc_diff_le)

lemma length_keepLast [simp]: "length (keepLast m xs) = min m (length xs)"
  by (simp add: keepLast_def)

lemma LogBuffer_add_cases:
  "buffer (LogBuffer_add b e) =
     (if int (length (buffer b)) < maxSize b then buffer b @ [e] else tl (buffer b @ [e]))"
  by (simp add: LogBuffer_add_def Let_def)

lemma LogBuffer_add_maxSize [simp]: "maxSize (LogBuffer_add b e) = maxSize b"
  by (simp add: LogBuffer_add_def Let_def)

lemma LogBuffer_add_keepLast:
  assumes "1 \<le> maxSize b" and "int (length (buffer b)) \<le> maxSize b"
  shows "buffer (LogBuffer_add b e) = keepLast (nat (maxSize b)) (buffer b @ [e])"
proof -
  have "buffer (LogBuffer_add b e) =
          (if length (buffer b) < nat (maxSize b) then buffer b @ [e] else tl (buffer b @ [e]))"
    using assms by (auto simp: LogBuffer_add_def Let_def)
  also have "\<dots> = keepLast (nat (maxSize b)) (buffer b @ [e])"
    using assms by (intro push_shift_keepLast) auto
  finally show ?thesis .
qed

lemma foldl_add_maxSize [simp]: "maxSize (foldl LogBuffer_add b es) = maxSize b"
  by (induction es arbitrary: b) simp_all

lemma foldl_add_keepLast:
  assumes "1 \<le> maxSize b" and "int (length (buffer b)) \<le> maxSize b"
  shows "buffer (foldl LogBuffer_add b es) = keepLast (nat (maxSize b)) (buffer b @ es)"
  using assms
proof (induction es arbitrary: b)
  case Nil
  then show ?case by (simp add: keepLast_def)
next
  case (Cons e es)
  let ?b = "LogBuffer_add b e"
  have eq: "buffer ?b = keepLast (nat (maxSize b)) (buffer b @ [e])"
    using Cons.prems by (rule LogBuffer_add_keepLast)
  then have "int (length (buffer ?b)) \<le> maxSize ?b"
    using Cons.prems by simp
  then have "buffer (foldl LogBuffer_add ?b es) = keepLast (nat (maxSize b)) (buffer ?b @ es)"
    using Cons.IH [of ?b] Cons.prems by simp
  also have "\<dots> = keepLast (nat (maxSize b)) ((buffer b @ [e]) @ es)"
    unfolding eq by (rule keepLast_append_keepLast)
  finally show ?case by simp
qed

lemma shiftWhileOver_keepLast:
  "0 \<le> m \<Longrightarrow> shiftWhileOver m xs = keepLast (nat m) xs"
proof (induction xs)
  case Nil
  then show ?case by (simp add: keepLast_def)
next
  case (Cons x xs)
  then show ?case by (auto simp: keepLast_def Suc_diff_le)
qed

text \<open>
  Claim C6. A ring buffer built by the constructor and filled by any sequence of adds
  never holds more entries than its capacity (the constructor's argument, at least 1);
  it holds the most recent ones, an add on a full buffer dropping the oldest entry; with
  capacity 2 the adds X, Y, Z leave [Y, Z]; and \<open>setMaxSize\<close> trims to the new capacity.
\<close>

theorem ring_buffer_bounded:
  "LogBuffer_getMaxSize (foldl LogBuffer_add (LogBuffer_new n) es) = max 1 n
   \<and> LogBuffer_size (foldl LogBuffer_add (LogBuffer_new n) es) \<le> max 1 n
   \<and> buffer (foldl LogBuffer_add (LogBuffer_new n) es) = keepLast (nat (max 1 n)) es
   \<and> buffer (LogBuffer_add (foldl LogBuffer_add (LogBuffer_new n) es) e) =
       (if LogBuffer_size (foldl LogBuffer_add (LogBuffer_new n) es) < max 1 n
        then buffer (foldl LogBuffer_add (LogBuffer_new n) es) @ [e]
        else tl (buffer (foldl LogBuffer_add (LogBuffer_new n) es)) @ [e])
   \<and> buffer (foldl LogBuffer_add (LogBuffer_new 2) [X, Y, Z]) = [Y, Z]
   \<and> LogBuffer_size (LogBuffer_setMaxSize k (foldl LogBuffer_add (LogBuffer_new n) es)) \<le> max 1 k"
proof -
  let ?b = "foldl LogBuffer_add (LogBuffer_new n) es"
  have mx: "maxSize ?b = max 1 n" by (simp add: LogBuffer_new_def)
  have buf: "buffer ?b = keepLast (nat (max 1 n)) es"
    using foldl_add_keepLast [of "LogBuffer_new n" es] by (simp add: LogBuffer_new_def)
  have sz: "LogBuffer_size ?b \<le> max 1 n"
    unfolding LogBuffer_size_def buf by simp
  have step: "buffer (LogBuffer_add ?b e) =
       (if LogBuffer_size ?b < max 1 n then buffer ?b @ [e] else tl (buffer ?b) @ [e])"
  proof -
    have "buffer (LogBuffer_add ?b e) =
       (if int (length (buffer ?b)) < max 1 n then buffer ?b @ [e] else tl (buffer ?b @ [e]))"
      unfolding LogBuffer_add_cases mx ..
    moreover have "\<not> int (length (buffer ?b)) < max 1 n \<Longrightarrow> buffer ?b \<noteq> []"
      by auto
    ultimately show ?thesis by (simp add: LogBuffer_size_def)
  qed
  have ex: "buffer (foldl LogBuffer_add (LogBuffer_new 2) [X, Y, Z]) = [Y, Z]"
    by (simp add: LogBuffer_add_def LogBuffer_new_def Let_def)
  have shrink: "LogBuffer_size (LogBuffer_setMaxSize k ?b) \<le> max 1 k"
    by (simp add: LogBuffer_setMaxSize_def Let_def LogBuffer_size_def shiftWhileOver_keepLast)
  show ?thesis
    using mx buf sz step ex shrink by (simp only: LogBuffer_getMaxSize_def simp_thms)
qed

theorem ring_buffer_bounded_witness:
  "buffer (foldl LogBuffer_add (LogBuffer_new 2)
      [sample_entry ''X'' 1, sample_entry ''Y'' 2, sample_entry ''Z'' 3])
     = [sample_entry ''Y'' 2, sample_entry ''Z'' 3]
   \<and> LogBuffer_size (foldl LogBuffer_add (LogBuffer_new 2)
      [sample_entry ''X'' 1, sample_entry ''Y'' 2, sample_entry ''Z'' 3]) \<le> 2"
proof -
  let ?es = "[sample_entry ''X'' 1, sample_entry ''Y'' 2, sample_entry ''Z'' 3]"
  note t = ring_buffer_bounded [of 2 ?es]
  from t have "buffer (foldl LogBuffer_add (LogBuffer_new 2) ?es) = keepLast (nat (max 1 2)) ?es"
    by blast
  moreover from t have "LogBuffer_size (foldl LogBuffer_add (LogBuffer_new 2) ?es) \<le> max 1 2"
    by blast
  ultimately show ?thesis by (simp add: keepLast_def)
qed


section \<open>Remote delivery: bounded retry with linear backoff\<close>

lemma makeRequest_fail:
  "\<not> succeeded (fetch_outcome h (length (requests b))) \<Longrightarrow>
   RemoteAdapter_makeRequest h p b =
     (Some (request_error (fetch_outcome h (length (requests b)))), b\<lparr>requests := requests b @ [p]\<rparr>)"
  by (simp add: RemoteAdapter_makeRequest_def Let_def)

lemma makeRequest_ok:
  "succeeded (fetch_outcome h (length (requests b))) \<Longrightarrow>
   RemoteAdapter_makeRequest h p b = (None, b\<lparr>requests := requests b @ [p]\<rparr>)"
  by (simp add: RemoteAdapter_makeRequest_def Let_def)

lemma loop_exhausted:
  "retryAttempts ra < attempt \<Longrightarrow>
   sendBatch_loop h ra p attempt lastError b =
     (Some (case lastError of None \<Rightarrow> ThrownNull | Some err \<Rightarrow> err), b)"
  by (subst sendBatch_loop.simps) simp

lemma loop_success_now:
  "attempt \<le> retryAttempts ra \<Longrightarrow> succeeded (fetch_outcome h (length (requests b))) \<Longrightarrow>
   sendBatch_loop h ra p attempt lastError b = (None, b\<lparr>requests := requests b @ [p]\<rparr>)"
  by (subst sendBatch_loop.simps) (simp add: makeRequest_ok)

lemma loop_failure_now:
  "attempt \<le> retryAttempts ra \<Longrightarrow> \<not> succeeded (fetch_outcome h (length (requests b))) \<Longrightarrow>
   sendBatch_loop h ra p attempt lastError b =
     sendBatch_loop h ra p (attempt + 1)
       (Some (request_error (fetch_outcome h (length (requests b)))))
       (if attempt < retryAttempts ra
        then RemoteAdapter_delay (retryDelay ra * attempt) (b\<lparr>requests := requests b @ [p]\<rparr>)
        else b\<lparr>requests := requests b @ [p]\<rparr>)"
  by (subst sendBatch_loop.simps) (simp add: makeRequest_fail)

text \<open>The loop from attempt \<open>a\<close> on, when the first success is at attempt \<open>s\<close>.\<close>

lemma loop_first_success:
  assumes "a \<le> s" and "s \<le> retryAttempts ra"
    and "\<forall>j. a \<le> j \<and> j < s \<longrightarrow> \<not> succeeded (fetch_outcome h (length (requests b) + nat (j - a)))"
    and "succeeded (fetch_outcome h (length (requests b) + nat (s - a)))"
  shows "sendBatch_loop h ra p a lastError b =
           (None, b\<lparr>requests := requests b @ replicate (nat (s + 1 - a)) p,
                    delays := delays b @ map (\<lambda>i. retryDelay ra * i) [a..s - 1]\<rparr>)"
  using assms
proof (induction "nat (s - a)" arbitrary: a lastError b)
  case 0
  then have "a = s" by simp
  with 0 show ?case by (simp add: loop_success_now)
next
  case (Suc k)
  then have lt: "a < s" by linarith
  with Suc.prems have a_le: "a \<le> retryAttempts ra" and a_lt: "a < retryAttempts ra" by simp_all
  from lt have fail: "\<not> succeeded (fetch_outcome h (length (requests b)))"
    using Suc.prems(3) [rule_format, of a] by simp
  let ?b = "RemoteAdapter_delay (retryDelay ra * a) (b\<lparr>requests := requests b @ [p]\<rparr>)"
  have len: "length (requests ?b) = Suc (length (requests b))"
    by (simp add: RemoteAdapter_delay_def)
  have shift: "length (requests ?b) + nat (j - (a + 1)) = length (requests b) + nat (j - a)"
    if "a + 1 \<le> j" for j using that len by (simp add: nat_diff_distrib')
  have IH: "sendBatch_loop h ra p (a + 1) lastError' ?b =
           (None, ?b\<lparr>requests := requests ?b @ replicate (nat (s + 1 - (a + 1))) p,
                    delays := delays ?b @ map (\<lambda>i. retryDelay ra * i) [a + 1..s - 1]\<rparr>)"
    for lastError'
  proof (rule Suc.hyps(1))
    show "k = nat (s - (a + 1))" using Suc.hyps(2) by linarith
    show "a + 1 \<le> s" using lt by simp
    show "s \<le> retryAttempts ra" by fact
    show "\<forall>j. a + 1 \<le> j \<and> j < s \<longrightarrow>
        \<not> succeeded (fetch_outcome h (length (requests ?b) + nat (j - (a + 1))))"
      using Suc.prems(3) shift by auto
    show "succeeded (fetch_outcome h (length (requests ?b) + nat (s - (a + 1))))"
      using Suc.prems(4) shift [of s] lt by simp
  qed
  have up: "[a..s - 1] = a # [a + 1..s - 1]" using lt by (simp add: upto_rec1)
  have "nat (s + 1 - a) = Suc (nat (s + 1 - (a + 1)))" using lt by linarith
  then have rep: "replicate (nat (s + 1 - a)) p = p # replicate (nat (s + 1 - (a + 1))) p"
    by simp
  show ?case
    using a_le a_lt fail IH up rep
    by (simp add: loop_failure_now RemoteAdapter_delay_def)
qed


text \<open>The loop from attempt \<open>a\<close> on, when every remaining attempt fails.\<close>

lemma loop_all_fail:
  assumes "a \<le> retryAttempts ra"
    and "\<forall>j. a \<le> j \<and> j \<le> retryAttempts ra \<longrightarrow>
           \<not> succeeded (fetch_outcome h (length (requests b) + nat (j - a)))"
  shows "sendBatch_loop h ra p a lastError b =
           (Some (request_error (fetch_outcome h (length (requests b) + nat (retryAttempts ra - a)))),
            b\<lparr>requests := requests b @ replicate (nat (retryAttempts ra + 1 - a)) p,
              delays := delays b @ map (\<lambda>i. retryDelay ra * i) [a..retryAttempts ra - 1]\<rparr>)"
  using assms
proof (induction "nat (retryAttempts ra - a)" arbitrary: a lastError b)
  case 0
  then have eq: "a = retryAttempts ra" by simp
  have fail: "\<not> succeeded (fetch_outcome h (length (requests b)))"
    using "0.prems"(2) [rule_format, of a] eq by simp
  show ?case
    using fail by (simp add: eq loop_failure_now loop_exhausted)
next
  case (Suc k)
  then have lt: "a < retryAttempts ra" by linarith
  have fail: "\<not> succeeded (fetch_outcome h (length (requests b)))"
    using Suc.prems(2) [rule_format, of a] lt by simp
  let ?b = "RemoteAdapter_delay (retryDelay ra * a) (b\<lparr>requests := requests b @ [p]\<rparr>)"
  have len: "length (requests ?b) = Suc (length (requests b))"
    by (simp add: RemoteAdapter_delay_def)
  have shift: "length (requests ?b) + nat (j - (a + 1)) = length (requests b) + nat (j - a)"
    if "a + 1 \<le> j" for j using that len by (simp add: nat_diff_distrib')
  have IH: "sendBatch_loop h ra p (a + 1) lastError' ?b =
           (Some (request_error (fetch_outcome h
                    (length (requests ?b) + nat (retryAttempts ra - (a + 1))))),
            ?b\<lparr>requests := requests ?b @ replicate (nat (retryAttempts ra + 1 - (a + 1))) p,
               delays := delays ?b @ map (\<lambda>i. retryDelay ra * i) [a + 1..retryAttempts ra - 1]\<rparr>)"
    for lastError'
  proof (rule Suc.hyps(1))
    show "k = nat (retryAttempts ra - (a + 1))" using Suc.hyps(2) by linarith
    show "a + 1 \<le> retryAttempts ra" using lt by simp
    show "\<forall>j. a + 1 \<le> j \<and> j \<le> retryAttempts ra \<longrightarrow>
        \<not> succeeded (fetch_outcome h (length (requests ?b) + nat (j - (a + 1))))"
      using Suc.prems(2) shift by auto
  qed
  have up: "[a..retryAttempts ra - 1] = a # [a + 1..retryAttempts ra - 1]"
    using lt by (simp add: upto_rec1)
  have "nat (retryAttempts ra + 1 - a) = Suc (nat (retryAttempts ra + 1 - (a + 1)))"
    using lt by linarith
  then have rep: "replicate (nat (retryAttempts ra + 1 - a)) p =
      p # replicate (nat (retryAttempts ra + 1 - (a + 1))) p"
    by simp
  have idx: "length (requests ?b) + nat (retryAttempts ra - (a + 1)) =
      length (requests b) + nat (retryAttempts ra - a)"
    using shift [of "retryAttempts ra"] lt by simp
  note IH' = IH [unfolded idx]
  show ?case
    using lt fail IH' up rep
    by (simp add: loop_failure_now RemoteAdapter_delay_def)
qed

lemma backoff_increasing:
  "0 < d \<Longrightarrow> sorted_wrt (<) (map (\<lambda>i. d * i) [a..(c::int)])"
  by (simp add: sorted_wrt_map sorted_wrt_mono_rel [OF _ sorted_wrt_upto])

text \<open>
  Claim C7. \<open>sendBatch\<close> does nothing without an endpoint or with an empty batch.
  Otherwise, with at least one attempt configured and a positive base delay, it makes
  \<open>m\<close> requests, \<open>1 \<le> m \<le> retryAttempts\<close>, each posting the batch; between attempt \<open>i\<close>
  and the next it waits \<open>retryDelay * i\<close>, a strictly increasing sequence; the attempts
  before the \<open>m\<close>-th failed; it returns normally if the \<open>m\<close>-th succeeded, and otherwise
  \<open>m\<close> is the number of attempts configured and it throws the last error. Nothing but the
  requests and the delays changes. With three attempts, two failures and a success the
  call returns after the third request, having waited \<open>retryDelay\<close> and \<open>2 * retryDelay\<close>.
\<close>

theorem sendBatch_bounded_retry:
  "(endpoint ra = None \<or> endpoint ra = Some [] \<or> entries = []
      \<longrightarrow> RemoteAdapter_sendBatch h ra entries b = (None, b))
   \<and> (endpoint ra \<noteq> None \<and> endpoint ra \<noteq> Some [] \<and> entries \<noteq> []
        \<and> 1 \<le> retryAttempts ra \<and> 0 < retryDelay ra
      \<longrightarrow> (\<exists>m. 1 \<le> m \<and> m \<le> retryAttempts ra
            \<and> snd (RemoteAdapter_sendBatch h ra entries b) =
                b\<lparr>requests := requests b @ replicate (nat m) entries,
                  delays := delays b @ map (\<lambda>i. retryDelay ra * i) [1..m - 1]\<rparr>
            \<and> sorted_wrt (<) (map (\<lambda>i. retryDelay ra * i) [1..m - 1])
            \<and> (\<forall>j. 1 \<le> j \<and> j < m
                  \<longrightarrow> \<not> succeeded (fetch_outcome h (length (requests b) + nat (j - 1))))
            \<and> (if succeeded (fetch_outcome h (length (requests b) + nat (m - 1)))
               then fst (RemoteAdapter_sendBatch h ra entries b) = None
               else m = retryAttempts ra
                    \<and> fst (RemoteAdapter_sendBatch h ra entries b) =
                        Some (request_error
                                (fetch_outcome h (length (requests b) + nat (m - 1)))))))
   \<and> (endpoint ra \<noteq> None \<and> endpoint ra \<noteq> Some [] \<and> entries \<noteq> []
        \<and> retryAttempts ra = 3
        \<and> \<not> succeeded (fetch_outcome h (length (requests b)))
        \<and> \<not> succeeded (fetch_outcome h (length (requests b) + 1))
        \<and> succeeded (fetch_outcome h (length (requests b) + 2))
      \<longrightarrow> RemoteAdapter_sendBatch h ra entries b =
            (None, b\<lparr>requests := requests b @ [entries, entries, entries],
                     delays := delays b @ [retryDelay ra * 1, retryDelay ra * 2]\<rparr>))"
proof (intro conjI impI)
  assume "endpoint ra = None \<or> endpoint ra = Some [] \<or> entries = []"
  then show "RemoteAdapter_sendBatch h ra entries b = (None, b)"
    by (auto simp: RemoteAdapter_sendBatch_def)
next
  let ?n = "retryAttempts ra"
  let ?k = "length (requests b)"
  let ?ok = "\<lambda>s. 1 \<le> s \<and> s \<le> ?n \<and> succeeded (fetch_outcome h (?k + nat (s - 1)))"
  assume cfg: "endpoint ra \<noteq> None \<and> endpoint ra \<noteq> Some [] \<and> entries \<noteq> []
        \<and> 1 \<le> retryAttempts ra \<and> 0 < retryDelay ra"
  then have run: "RemoteAdapter_sendBatch h ra entries b = sendBatch_loop h ra entries 1 None b"
    by (auto simp: RemoteAdapter_sendBatch_def)
  show "\<exists>m. 1 \<le> m \<and> m \<le> ?n
            \<and> snd (RemoteAdapter_sendBatch h ra entries b) =
                b\<lparr>requests := requests b @ replicate (nat m) entries,
                  delays := delays b @ map (\<lambda>i. retryDelay ra * i) [1..m - 1]\<rparr>
            \<and> sorted_wrt (<) (map (\<lambda>i. retryDelay ra * i) [1..m - 1])
            \<and> (\<forall>j. 1 \<le> j \<and> j < m
                  \<longrightarrow> \<not> succeeded (fetch_outcome h (?k + nat (j - 1))))
            \<and> (if succeeded (fetch_outcome h (?k + nat (m - 1)))
               then fst (RemoteAdapter_sendBatch h ra entries b) = None
               else m = ?n
                    \<and> fst (RemoteAdapter_sendBatch h ra entries b) =
                        Some (request_error (fetch_outcome h (?k + nat (m - 1)))))"
  proof (cases "\<exists>s. ?ok s")
    case True
    then obtain s0 where "?ok s0" ..
    from ex_has_least_nat [of ?ok s0 nat, OF this]
    obtain s where s: "?ok s" and least: "\<forall>y. ?ok y \<longrightarrow> nat s \<le> nat y" by blast
    have before: "\<forall>j. 1 \<le> j \<and> j < s \<longrightarrow> \<not> succeeded (fetch_outcome h (?k + nat (j - 1)))"
    proof (intro allI impI notI)
      fix j assume j: "1 \<le> j \<and> j < s" and "succeeded (fetch_outcome h (?k + nat (j - 1)))"
      with s have "?ok j" by simp
      with least have "nat s \<le> nat j" by blast
      with j show False by linarith
    qed
    have "sendBatch_loop h ra entries 1 None b =
           (None, b\<lparr>requests := requests b @ replicate (nat (s + 1 - 1)) entries,
                    delays := delays b @ map (\<lambda>i. retryDelay ra * i) [1..s - 1]\<rparr>)"
      using s before by (intro loop_first_success) auto
    then show ?thesis
      using s before cfg by (intro exI [of _ s]) (simp add: run backoff_increasing)
  next
    case False
    then have none: "\<forall>j. 1 \<le> j \<and> j \<le> ?n \<longrightarrow> \<not> succeeded (fetch_outcome h (?k + nat (j - 1)))"
      by blast
    have "sendBatch_loop h ra entries 1 None b =
           (Some (request_error (fetch_outcome h (?k + nat (?n - 1)))),
            b\<lparr>requests := requests b @ replicate (nat (?n + 1 - 1)) entries,
              delays := delays b @ map (\<lambda>i. retryDelay ra * i) [1..?n - 1]\<rparr>)"
      using cfg none by (intro loop_all_fail) auto
    then show ?thesis
      using none cfg by (intro exI [of _ ?n]) (simp add: run backoff_increasing)
  qed
next
  let ?k = "length (requests b)"
  assume a: "endpoint ra \<noteq> None \<and> endpoint ra \<noteq> Some [] \<and> entries \<noteq> []
        \<and> retryAttempts ra = 3
        \<and> \<not> succeeded (fetch_outcome h ?k)
        \<and> \<not> succeeded (fetch_outcome h (?k + 1))
        \<and> succeeded (fetch_outcome h (?k + 2))"
  then have run: "RemoteAdapter_sendBatch h ra entries b = sendBatch_loop h ra entries 1 None b"
    by (auto simp: RemoteAdapter_sendBatch_def)
  have before: "\<forall>j. (1::int) \<le> j \<and> j < 3 \<longrightarrow> \<not> succeeded (fetch_outcome h (?k + nat (j - 1)))"
  proof (intro allI impI)
    fix j :: int assume "1 \<le> j \<and> j < 3"
    then have "j = 1 \<or> j = 2" by linarith
    with a show "\<not> succeeded (fetch_outcome h (?k + nat (j - 1)))" by auto
  qed
  have "sendBatch_loop h ra entries 1 None b =
           (None, b\<lparr>requests := requests b @ replicate (nat (3 + 1 - 1)) entries,
                    delays := delays b @ map (\<lambda>i. retryDelay ra * i) [1..3 - 1]\<rparr>)"
    using a before by (intro loop_first_success) auto
  moreover have "[1..(2::int)] = [1, 2]" by (simp add: upto_rec1)
  ultimately show "RemoteAdapter_sendBatch h ra entries b =
            (None, b\<lparr>requests := requests b @ [entries, entries, entries],
                     delays := delays b @ [retryDelay ra * 1, retryDelay ra * 2]\<rparr>)"
    by (simp add: run numeral_3_eq_3)
qed


theorem sendBatch_bounded_retry_witness:
  "RemoteAdapter_sendBatch flaky_host (RemoteAdapter_new None) [sample_entry ''A'' 1] fresh_browser
     = (None, fresh_browser)
   \<and> 1 \<le> retryAttempts (RemoteAdapter_new (Some ''https://logs.example/ingest''))
   \<and> 0 < retryDelay (RemoteAdapter_new (Some ''https://logs.example/ingest''))
   \<and> (\<exists>m. 1 \<le> m \<and> m \<le> 3
         \<and> fst (RemoteAdapter_sendBatch exhausted_host
                  (RemoteAdapter_new (Some ''https://logs.example/ingest''))
                  [sample_entry ''A'' 1] fresh_browser) = Some NetworkError
         \<and> delays (snd (RemoteAdapter_sendBatch exhausted_host
                  (RemoteAdapter_new (Some ''https://logs.example/ingest''))
                  [sample_entry ''A'' 1] fresh_browser)) = map (\<lambda>i. 1000 * i) [1..m - 1])
   \<and> RemoteAdapter_sendBatch flaky_host
        (RemoteAdapter_new (Some ''https://logs.example/ingest''))
        [sample_entry ''A'' 1] fresh_browser
     = (None, fresh_browser\<lparr>requests :=
                 [[sample_entry ''A'' 1], [sample_entry ''A'' 1], [sample_entry ''A'' 1]],
               delays := [1000, 2000]\<rparr>)"
proof -
  let ?ra = "RemoteAdapter_new (Some ''https://logs.example/ingest'')"
  let ?es = "[sample_entry ''A'' 1]"
  note noop = sendBatch_bounded_retry [of "RemoteAdapter_new None" ?es flaky_host fresh_browser]
  note down = sendBatch_bounded_retry [of ?ra ?es exhausted_host fresh_browser]
  note flaky = sendBatch_bounded_retry [of ?ra ?es flaky_host fresh_browser]
  have cfg: "endpoint ?ra \<noteq> None \<and> endpoint ?ra \<noteq> Some [] \<and> ?es \<noteq> []
      \<and> 1 \<le> retryAttempts ?ra \<and> 0 < retryDelay ?ra"
    by (simp add: RemoteAdapter_new_def)
  have a: "RemoteAdapter_sendBatch flaky_host (RemoteAdapter_new None) ?es fresh_browser
     = (None, fresh_browser)"
    using noop by (simp add: RemoteAdapter_new_def)
  from down cfg obtain m where m: "1 \<le> m" "m \<le> retryAttempts ?ra"
      "snd (RemoteAdapter_sendBatch exhausted_host ?ra ?es fresh_browser) =
         fresh_browser\<lparr>requests := requests fresh_browser @ replicate (nat m) ?es,
           delays := delays fresh_browser @ map (\<lambda>i. retryDelay ?ra * i) [1..m - 1]\<rparr>"
      "if succeeded (fetch_outcome exhausted_host (length (requests fresh_browser) + nat (m - 1)))
       then fst (RemoteAdapter_sendBatch exhausted_host ?ra ?es fresh_browser) = None
       else m = retryAttempts ?ra
            \<and> fst (RemoteAdapter_sendBatch exhausted_host ?ra ?es fresh_browser) =
                Some (request_error (fetch_outcome exhausted_host
                        (length (requests fresh_browser) + nat (m - 1))))"
    by blast
  have b: "\<exists>m. 1 \<le> m \<and> m \<le> 3
         \<and> fst (RemoteAdapter_sendBatch exhausted_host ?ra ?es fresh_browser) = Some NetworkError
         \<and> delays (snd (RemoteAdapter_sendBatch exhausted_host ?ra ?es fresh_browser))
             = map (\<lambda>i. 1000 * i) [1..m - 1]"
    using m
    by (intro exI [of _ m])
       (simp add: exhausted_host_def succeeded_def request_error_def RemoteAdapter_new_def
          fresh_browser_def)
  have c: "RemoteAdapter_sendBatch flaky_host ?ra ?es fresh_browser
     = (None, fresh_browser\<lparr>requests := [?es, ?es, ?es], delays := [1000, 2000]\<rparr>)"
    using flaky
    by (simp add: RemoteAdapter_new_def flaky_host_def succeeded_def fresh_browser_def)
  show ?thesis using a b c cfg by (intro conjI) simp_all
qed

lemma RemoteAdapter_config_bounds:
  "1 \<le> retryAttempts (RemoteAdapter_new ep) \<and> 100 \<le> retryDelay (RemoteAdapter_new ep)
   \<and> 1 \<le> retryAttempts (RemoteAdapter_setRetryConfig k d ra)
   \<and> 100 \<le> retryDelay (RemoteAdapter_setRetryConfig k d ra)"
  by (simp add: RemoteAdapter_new_def RemoteAdapter_setRetryConfig_def)

lemma loop_frame:
  "\<exists>rs ds. snd (sendBatch_loop h ra p a lastError b) = b\<lparr>requests := rs, delays := ds\<rparr>"
proof (induction "nat (retryAttempts ra + 1 - a)" arbitrary: a lastError b)
  case 0
  then have "retryAttempts ra < a" by linarith
  then have "snd (sendBatch_loop h ra p a lastError b) = b\<lparr>requests := requests b, delays := delays b\<rparr>"
    by (simp add: loop_exhausted)
  then show ?case by blast
next
  case (Suc k)
  then have le: "a \<le> retryAttempts ra" by linarith
  show ?case
  proof (cases "succeeded (fetch_outcome h (length (requests b)))")
    case True
    with le have "snd (sendBatch_loop h ra p a lastError b) =
        b\<lparr>requests := requests b @ [p], delays := delays b\<rparr>"
      by (simp add: loop_success_now)
    then show ?thesis by blast
  next
    case False
    let ?b = "if a < retryAttempts ra
        then RemoteAdapter_delay (retryDelay ra * a) (b\<lparr>requests := requests b @ [p]\<rparr>)
        else b\<lparr>requests := requests b @ [p]\<rparr>"
    let ?e = "Some (request_error (fetch_outcome h (length (requests b))))"
    have "k = nat (retryAttempts ra + 1 - (a + 1))" using Suc.hyps(2) by linarith
    from Suc.hyps(1) [OF this, of ?e ?b]
    obtain rs ds where "snd (sendBatch_loop h ra p (a + 1) ?e ?b) = ?b\<lparr>requests := rs, delays := ds\<rparr>"
      by blast
    then have "snd (sendBatch_loop h ra p a lastError b) = b\<lparr>requests := rs, delays := ds\<rparr>"
      using le False by (simp add: loop_failure_now RemoteAdapter_delay_def split: if_splits)
    then show ?thesis by blast
  qed
qed

lemma sendBatch_frame:
  "\<exists>rs ds. snd (RemoteAdapter_sendBatch h ra es b) = b\<lparr>requests := rs, delays := ds\<rparr>"
proof (cases "endpoint ra = None \<or> endpoint ra = Some [] \<or> es = []")
  case True
  then have "snd (RemoteAdapter_sendBatch h ra es b) = b\<lparr>requests := requests b, delays := delays b\<rparr>"
    by (auto simp: RemoteAdapter_sendBatch_def)
  then show ?thesis by blast
next
  case False
  then show ?thesis using loop_frame [of h ra es 1 None b]
    by (auto simp: RemoteAdapter_sendBatch_def)
qed


section \<open>Performance measurements\<close>

lemma start_measurements:
  "measurements (PerformanceTracker_start now label t) = (measurements t)(label \<mapsto> now)"
  by (simp add: PerformanceTracker_start_def tracker_logs_def)

lemma end_known:
  assumes "measurements t label = Some s" and "s \<noteq> 0"
  shows "PerformanceTracker_end now label t =
           (now - s, tracker_logs INFO (''Performance measurement: '' @ label)
                       (t\<lparr>measurements := (measurements t)(label := None)\<rparr>))"
  using assms by (simp add: PerformanceTracker_end_def Let_def)

lemma end_unknown:
  assumes "measurements t label = None \<or> measurements t label = Some 0"
  shows "PerformanceTracker_end now label t =
           (0, tracker_logs WARN (''No start time found for performance label: '' @ label) t)"
  using assms by (auto simp: PerformanceTracker_end_def Let_def)

lemma measure_throws_nonzero:
  assumes "startNow \<noteq> 0" and "fn = Throws err \<or> fn = Rejects err"
  shows "fst (PerformanceTracker_measure startNow endNow label fn t) = Inl err
         \<and> label \<notin> PerformanceTracker_getActiveMeasurements
                      (snd (PerformanceTracker_measure startNow endNow label fn t))"
  using assms
  by (auto simp: PerformanceTracker_measure_def PerformanceTracker_getActiveMeasurements_def
      Let_def end_known start_measurements tracker_logs_def)

text \<open>
  Claim C10. When \<open>start\<close> stores the reading 0, the next \<open>end\<close> of the label takes the
  branch of an unknown label: it logs the warning, returns 0 and leaves the label in the
  map. With any other reading \<open>end\<close> removes the label and returns the elapsed time.
\<close>

theorem end_after_start_at_zero:
  "PerformanceTracker_end endNow label (PerformanceTracker_start 0 label t) =
     (0, tracker_logs WARN (''No start time found for performance label: '' @ label)
           (PerformanceTracker_start 0 label t))
   \<and> measurements (snd (PerformanceTracker_end endNow label (PerformanceTracker_start 0 label t)))
        label = Some 0
   \<and> label \<in> PerformanceTracker_getActiveMeasurements
                (snd (PerformanceTracker_end endNow label (PerformanceTracker_start 0 label t)))
   \<and> (startNow \<noteq> 0 \<longrightarrow>
        fst (PerformanceTracker_end endNow label (PerformanceTracker_start startNow label t))
          = endNow - startNow
        \<and> label \<notin> PerformanceTracker_getActiveMeasurements
              (snd (PerformanceTracker_end endNow label (PerformanceTracker_start startNow label t))))"
proof -
  have z: "PerformanceTracker_end endNow label (PerformanceTracker_start 0 label t) =
     (0, tracker_logs WARN (''No start time found for performance label: '' @ label)
           (PerformanceTracker_start 0 label t))"
    by (rule end_unknown) (simp add: start_measurements)
  have kept: "measurements (tracker_logs WARN m (PerformanceTracker_start 0 label t)) label = Some 0"
    for m by (simp add: tracker_logs_def start_measurements)
  have nz: "startNow \<noteq> 0 \<Longrightarrow>
        fst (PerformanceTracker_end endNow label (PerformanceTracker_start startNow label t))
          = endNow - startNow
        \<and> label \<notin> PerformanceTracker_getActiveMeasurements
              (snd (PerformanceTracker_end endNow label (PerformanceTracker_start startNow label t)))"
    by (simp add: end_known start_measurements tracker_logs_def
        PerformanceTracker_getActiveMeasurements_def)
  show ?thesis
    using nz by (simp add: z kept PerformanceTracker_getActiveMeasurements_def domIff)
qed

theorem end_after_start_at_zero_witness:
  "(5::real) \<noteq> 0
   \<and> fst (PerformanceTracker_end 12 ''load'' (PerformanceTracker_start 5 ''load'' empty_tracker)) = 7
   \<and> ''load'' \<notin> PerformanceTracker_getActiveMeasurements
        (snd (PerformanceTracker_end 12 ''load'' (PerformanceTracker_start 5 ''load'' empty_tracker)))
   \<and> fst (PerformanceTracker_end 12 ''load'' (PerformanceTracker_start 0 ''load'' empty_tracker)) = 0
   \<and> ''load'' \<in> PerformanceTracker_getActiveMeasurements
        (snd (PerformanceTracker_end 12 ''load'' (PerformanceTracker_start 0 ''load'' empty_tracker)))"
proof -
  note t = end_after_start_at_zero [of 12 "''load''" empty_tracker 5]
  have nz: "(5::real) \<noteq> 0" by simp
  from t nz have a:
    "fst (PerformanceTracker_end 12 ''load'' (PerformanceTracker_start 5 ''load'' empty_tracker))
       = 12 - 5"
    by blast
  from t nz have b:
    "''load'' \<notin> PerformanceTracker_getActiveMeasurements
        (snd (PerformanceTracker_end 12 ''load'' (PerformanceTracker_start 5 ''load'' empty_tracker)))"
    by blast
  from t have "PerformanceTracker_end 12 ''load'' (PerformanceTracker_start 0 ''load'' empty_tracker) =
     (0, tracker_logs WARN (''No start time found for performance label: '' @ ''load'')
           (PerformanceTracker_start 0 ''load'' empty_tracker))"
    by blast
  then have c:
    "fst (PerformanceTracker_end 12 ''load'' (PerformanceTracker_start 0 ''load'' empty_tracker)) = 0"
    by (simp only: fst_conv)
  from t have d:
    "''load'' \<in> PerformanceTracker_getActiveMeasurements
        (snd (PerformanceTracker_end 12 ''load'' (PerformanceTracker_start 0 ''load'' empty_tracker)))"
    by blast
  from a have a': 
    "fst (PerformanceTracker_end 12 ''load'' (PerformanceTracker_start 5 ''load'' empty_tracker)) = 7"
    by simp
  show ?thesis using nz a' b c d by (intro conjI)
qed

text \<open>
  Claim C8, at the reading 0. When the clock reads 0 at the start of \<open>measure\<close> and the
  operation throws (or its promise is rejected), the caller gets the operation's own
  error, and the label is still among the active measurements.
\<close>

theorem measure_throw_at_zero_keeps_label:
  "fst (PerformanceTracker_measure 0 endNow label (Throws err) t) = Inl err
   \<and> label \<in> PerformanceTracker_getActiveMeasurements
                (snd (PerformanceTracker_measure 0 endNow label (Throws err) t))
   \<and> fst (PerformanceTracker_measure 0 endNow label (Rejects err) t) = Inl err
   \<and> label \<in> PerformanceTracker_getActiveMeasurements
                (snd (PerformanceTracker_measure 0 endNow label (Rejects err) t))"
  by (simp add: PerformanceTracker_measure_def PerformanceTracker_getActiveMeasurements_def
      Let_def end_unknown start_measurements tracker_logs_def domIff)


section \<open>Flushing the ring buffer\<close>

lemma flush_catch_browser:
  "\<exists>cs. snd (snd (Logger_flush_catch h es lg b)) = b\<lparr>console := cs\<rparr>"
proof (cases "console_throws h")
  case True
  then have "snd (snd (Logger_flush_catch h es lg b)) = b\<lparr>console := console b\<rparr>"
    by (simp add: Logger_flush_catch_def console_emit_def Let_def)
  then show ?thesis by blast
next
  case False
  then have "snd (snd (Logger_flush_catch h es lg b)) =
      b\<lparr>console := console b @ [(Console_warn, Text ''Failed to send logs to remote endpoint:'')]\<rparr>"
    by (simp add: Logger_flush_catch_def console_emit_def Let_def)
  then show ?thesis by blast
qed

lemma flush_browser:
  "\<exists>cs rs ds. snd (snd (Logger_flush h lg b)) = b\<lparr>console := cs, requests := rs, delays := ds\<rparr>"
proof (cases "enableRemote (config lg) \<and> LogBuffer_size (logBuffer lg) > 0")
  case False
  then have "snd (snd (Logger_flush h lg b)) =
      b\<lparr>console := console b, requests := requests b, delays := delays b\<rparr>"
    by (auto simp: Logger_flush_def)
  then show ?thesis by blast
next
  case True
  let ?lg = "lg\<lparr>logBuffer := logBuffer lg\<lparr>buffer := []\<rparr>\<rparr>"
  let ?r = "RemoteAdapter_sendBatch h (remoteAdapter lg) (buffer (logBuffer lg)) b"
  obtain rs ds where sb: "snd ?r = b\<lparr>requests := rs, delays := ds\<rparr>"
    using sendBatch_frame by blast
  show ?thesis
  proof (cases "fst ?r")
    case None
    then have "snd (snd (Logger_flush h lg b)) = snd ?r"
      using True by (auto simp: Logger_flush_def LogBuffer_flush_def Let_def split: prod.splits)
    with sb have "snd (snd (Logger_flush h lg b)) =
        b\<lparr>console := console b, requests := rs, delays := ds\<rparr>" by simp
    then show ?thesis by blast
  next
    case (Some err)
    then have "snd (snd (Logger_flush h lg b)) =
        snd (snd (Logger_flush_catch h (buffer (logBuffer lg)) ?lg (snd ?r)))"
      using True by (auto simp: Logger_flush_def LogBuffer_flush_def Let_def split: prod.splits)
    moreover obtain cs where
      "snd (snd (Logger_flush_catch h (buffer (logBuffer lg)) ?lg (snd ?r))) = (snd ?r)\<lparr>console := cs\<rparr>"
      using flush_catch_browser by blast
    ultimately have "snd (snd (Logger_flush h lg b)) =
        b\<lparr>console := cs, requests := rs, delays := ds\<rparr>"
      using sb by simp
    then show ?thesis by blast
  qed
qed

lemma sendBatch_all_fail:
  assumes "endpoint ra \<noteq> None" and "endpoint ra \<noteq> Some []" and "es \<noteq> []"
    and "1 \<le> retryAttempts ra" and "\<forall>k. \<not> succeeded (fetch_outcome h k)"
  shows "fst (RemoteAdapter_sendBatch h ra es b) =
           Some (request_error (fetch_outcome h (length (requests b) + nat (retryAttempts ra - 1))))"
proof -
  have "RemoteAdapter_sendBatch h ra es b = sendBatch_loop h ra es 1 None b"
    using assms by (auto simp: RemoteAdapter_sendBatch_def)
  then show ?thesis using assms by (simp add: loop_all_fail)
qed

lemma keepLast_suffix:
  "length ys \<le> m \<Longrightarrow> suffix ys (keepLast m (xs @ ys))"
  by (simp add: keepLast_def suffix_def)

lemma flush_catch_buffer:
  "logBuffer (fst (snd (Logger_flush_catch h es lg b))) = foldl LogBuffer_add (logBuffer lg) es"
  by (simp add: Logger_flush_catch_def Let_def split: prod.splits)

lemma flush_failed:
  assumes "enableRemote (config lg)" and "buffer (logBuffer lg) \<noteq> []"
    and "fst (RemoteAdapter_sendBatch h (remoteAdapter lg) (buffer (logBuffer lg)) b) = Some err"
  shows "logBuffer (fst (snd (Logger_flush h lg b))) =
           foldl LogBuffer_add ((logBuffer lg)\<lparr>buffer := []\<rparr>) (buffer (logBuffer lg))"
  using assms
  by (auto simp: Logger_flush_def LogBuffer_flush_def LogBuffer_size_def Let_def flush_catch_buffer
      split: prod.splits option.splits)

text \<open>
  Claim C2. A flush takes the whole buffer as its batch and leaves the buffer empty.
  When the transmission of the batch fails, the \<open>catch\<close> block adds the batch back: run
  on the buffer the flush has emptied, it leaves exactly the batch; run on whatever the
  buffer holds by then (entries logged while the transmission was awaited), it leaves
  a buffer that ends with the whole batch, in order. The buffer is one that respects its
  capacity, as every buffer made by the constructor and the operations does.
\<close>

theorem failed_flush_requeues_batch:
  assumes "enableRemote (config lg)" and "buffer (logBuffer lg) \<noteq> []"
    and "1 \<le> maxSize (logBuffer lg)"
    and "int (length (buffer (logBuffer lg))) \<le> maxSize (logBuffer lg)"
    and "fst (RemoteAdapter_sendBatch h (remoteAdapter lg) (buffer (logBuffer lg)) b) = Some err"
  shows "LogBuffer_flush (logBuffer lg) = (buffer (logBuffer lg), (logBuffer lg)\<lparr>buffer := []\<rparr>)
     \<and> buffer (logBuffer (fst (snd (Logger_flush h lg b)))) = buffer (logBuffer lg)
     \<and> (maxSize (logBuffer lgm) = maxSize (logBuffer lg)
          \<and> int (length (buffer (logBuffer lgm))) \<le> maxSize (logBuffer lgm)
        \<longrightarrow> suffix (buffer (logBuffer lg))
              (buffer (logBuffer (fst (snd (Logger_flush_catch h (buffer (logBuffer lg)) lgm bm)))))
            \<and> set (buffer (logBuffer lg))
                \<subseteq> set (buffer (logBuffer (fst (snd
                         (Logger_flush_catch h (buffer (logBuffer lg)) lgm bm))))))"
proof (intro conjI impI)
  show "LogBuffer_flush (logBuffer lg) = (buffer (logBuffer lg), (logBuffer lg)\<lparr>buffer := []\<rparr>)"
    by (simp add: LogBuffer_flush_def)
next
  let ?e = "(logBuffer lg)\<lparr>buffer := []\<rparr>"
  have "buffer (foldl LogBuffer_add ?e (buffer (logBuffer lg))) =
          keepLast (nat (maxSize ?e)) (buffer ?e @ buffer (logBuffer lg))"
    using assms(3) by (intro foldl_add_keepLast) simp_all
  also have "\<dots> = buffer (logBuffer lg)"
    using assms(4) by (simp add: keepLast_def)
  finally show "buffer (logBuffer (fst (snd (Logger_flush h lg b)))) = buffer (logBuffer lg)"
    using flush_failed [OF assms(1,2,5)] by simp
next
  assume m: "maxSize (logBuffer lgm) = maxSize (logBuffer lg)
          \<and> int (length (buffer (logBuffer lgm))) \<le> maxSize (logBuffer lgm)"
  let ?after = "buffer (logBuffer (fst (snd (Logger_flush_catch h (buffer (logBuffer lg)) lgm bm))))"
  have eq: "?after = keepLast (nat (maxSize (logBuffer lgm)))
                 (buffer (logBuffer lgm) @ buffer (logBuffer lg))"
    unfolding flush_catch_buffer using m assms(3) by (intro foldl_add_keepLast) simp_all
  show suf: "suffix (buffer (logBuffer lg)) ?after"
    unfolding eq using m assms(4) by (intro keepLast_suffix) simp
  show "set (buffer (logBuffer lg)) \<subseteq> set ?after"
    using suf by (rule set_mono_suffix)
qed

theorem failed_flush_requeues_batch_witness:
  "enableRemote (config remote_logger) \<and> buffer (logBuffer remote_logger) \<noteq> []
   \<and> 1 \<le> maxSize (logBuffer remote_logger)
   \<and> int (length (buffer (logBuffer remote_logger))) \<le> maxSize (logBuffer remote_logger)
   \<and> fst (RemoteAdapter_sendBatch exhausted_host (remoteAdapter remote_logger)
            (buffer (logBuffer remote_logger)) fresh_browser) = Some NetworkError
   \<and> buffer (logBuffer (fst (snd (Logger_flush exhausted_host remote_logger fresh_browser))))
       = [sample_entry ''A'' 1, sample_entry ''B'' 2]
   \<and> suffix [sample_entry ''A'' 1, sample_entry ''B'' 2]
        (buffer (logBuffer (fst (snd (Logger_flush_catch exhausted_host
           [sample_entry ''A'' 1, sample_entry ''B'' 2]
           (remote_logger\<lparr>logBuffer := \<lparr>buffer = [sample_entry ''C'' 3], maxSize = 2\<rparr>\<rparr>)
           fresh_browser)))))"
proof -
  let ?lgm = "remote_logger\<lparr>logBuffer := \<lparr>buffer = [sample_entry ''C'' 3], maxSize = 2\<rparr>\<rparr>"
  have h1: "enableRemote (config remote_logger)" and h2: "buffer (logBuffer remote_logger) \<noteq> []"
    and h3: "1 \<le> maxSize (logBuffer remote_logger)"
    and h4: "int (length (buffer (logBuffer remote_logger))) \<le> maxSize (logBuffer remote_logger)"
    by (simp_all add: remote_logger_def)
  have "fst (RemoteAdapter_sendBatch exhausted_host (remoteAdapter remote_logger)
            (buffer (logBuffer remote_logger)) fresh_browser) =
        Some (request_error (fetch_outcome exhausted_host (length (requests fresh_browser)
                + nat (retryAttempts (remoteAdapter remote_logger) - 1))))"
    by (rule sendBatch_all_fail)
       (simp_all add: remote_logger_def RemoteAdapter_new_def exhausted_host_def succeeded_def)
  then have h5: "fst (RemoteAdapter_sendBatch exhausted_host (remoteAdapter remote_logger)
            (buffer (logBuffer remote_logger)) fresh_browser) = Some NetworkError"
    by (simp add: exhausted_host_def request_error_def)
  note t = failed_flush_requeues_batch [OF h1 h2 h3 h4 h5, where lgm = ?lgm and bm = fresh_browser]
  have bufeq: "buffer (logBuffer remote_logger) = [sample_entry ''A'' 1, sample_entry ''B'' 2]"
    by (simp add: remote_logger_def)
  have m: "maxSize (logBuffer ?lgm) = maxSize (logBuffer remote_logger)
          \<and> int (length (buffer (logBuffer ?lgm))) \<le> maxSize (logBuffer ?lgm)"
    by (simp add: remote_logger_def)
  from t have a: "buffer (logBuffer (fst (snd (Logger_flush exhausted_host remote_logger fresh_browser))))
       = buffer (logBuffer remote_logger)" by blast
  from t m have c: "suffix (buffer (logBuffer remote_logger))
        (buffer (logBuffer (fst (snd (Logger_flush_catch exhausted_host
           (buffer (logBuffer remote_logger)) ?lgm fresh_browser)))))" by blast
  show ?thesis using h1 h2 h3 h4 h5 a c unfolding bufeq by (intro conjI)
qed


section \<open>The handlers installed on the window\<close>

lemma loadOrCreateSession_listeners:
  "listeners (snd (snd (SessionManager_loadOrCreateSession h amb st b))) = listeners b"
  by (simp add: SessionManager_loadOrCreateSession_def SessionManager_createNewSession_def
      console_emit_def Let_def split: option.splits)

lemma SessionManager_new_listeners:
  assumes "SessionManager_new h amb owner b = Inr (sm, b1)"
  shows "listeners b1 = listeners b
           @ [(Document, ''visibilitychange'', VisibilityHandler owner),
              (Window, ''beforeunload'', UnloadHandler owner)]"
proof -
  obtain r sid b0 where l: "SessionManager_loadOrCreateSession h amb (dateNow amb) b = (r, sid, b0)"
    by (cases "SessionManager_loadOrCreateSession h amb (dateNow amb) b") auto
  then have "listeners b0 = listeners b"
    using loadOrCreateSession_listeners [of h amb "dateNow amb" b] by simp
  then show ?thesis using assms l
    by (cases r) (auto simp: SessionManager_new_def SessionManager_trackPageVisibility_def Let_def)
qed

lemma SessionManager_new_returns:
  assumes "\<not> (console_throws h \<and> (session_load_throws h \<or> session_setItem_throws h))"
  shows "\<exists>sm b1. SessionManager_new h amb owner b = Inr (sm, b1)"
proof -
  have "fst (SessionManager_loadOrCreateSession h amb st b) = None" for st
    using assms
    by (auto simp: SessionManager_loadOrCreateSession_def SessionManager_createNewSession_def
        console_emit_def Let_def split: option.splits)
  then obtain sid b0 where
    "SessionManager_loadOrCreateSession h amb (dateNow amb) b = (None, sid, b0)"
    by (metis prod.collapse)
  then show ?thesis by (simp add: SessionManager_new_def Let_def)
qed

lemma Logger_new_listeners:
  assumes "Logger_new h this p amb b = Inr (lg, b')"
  shows "listeners b' = listeners b
           @ [(Document, ''visibilitychange'', VisibilityHandler this),
              (Window, ''beforeunload'', UnloadHandler this),
              (Window, ''error'', ErrorHandler this),
              (Window, ''unhandledrejection'', RejectionHandler this)]"
proof (cases "SessionManager_new h amb this b")
  case (Inl x)
  with assms show ?thesis by (cases x) (simp add: Logger_new_def Let_def)
next
  case (Inr y)
  obtain sm b1 where y: "y = (sm, b1)" by (cases y)
  have "listeners b1 = listeners b
           @ [(Document, ''visibilitychange'', VisibilityHandler this),
              (Window, ''beforeunload'', UnloadHandler this)]"
    using Inr y by (intro SessionManager_new_listeners [of h amb this b sm]) simp
  then show ?thesis using assms Inr y
    by (auto simp: Logger_new_def Logger_initializeAutoFlush_def Logger_setupErrorHandlers_def
        Let_def split: if_splits)
qed

lemma Logger_new_returns:
  assumes "\<not> (console_throws h \<and> (session_load_throws h \<or> session_setItem_throws h))"
  shows "\<exists>lg b'. Logger_new h this p amb b = Inr (lg, b')"
proof -
  from SessionManager_new_returns [OF assms, of amb this b]
  obtain sm b1 where "SessionManager_new h amb this b = Inr (sm, b1)" by blast
  then show ?thesis
    by (simp add: Logger_new_def Logger_initializeAutoFlush_def Let_def)
qed

lemma Logger_destroy_listeners:
  "listeners (snd (Logger_destroy h lg b)) = listeners b"
proof -
  let ?b = "case flushTimer lg of None \<Rightarrow> b
            | Some t \<Rightarrow> b\<lparr>intervals := removeAll t (intervals b)\<rparr>"
  have b1: "listeners ?b = listeners b" by (simp split: option.splits)
  obtain cs rs ds where
    fl: "snd (snd (Logger_flush h lg ?b)) = ?b\<lparr>console := cs, requests := rs, delays := ds\<rparr>"
    using flush_browser by blast
  have "listeners (snd (Logger_destroy h lg b)) = listeners (snd (snd (Logger_flush h lg ?b)))"
    by (simp add: Logger_destroy_def Let_def console_emit_def split: prod.splits option.splits)
  then show ?thesis using fl b1 by simp
qed

lemma Logger_destroy_intervals:
  "flushTimer lg = Some t \<Longrightarrow> t \<notin> set (intervals (snd (Logger_destroy h lg b)))"
proof -
  assume t: "flushTimer lg = Some t"
  let ?b = "b\<lparr>intervals := removeAll t (intervals b)\<rparr>"
  obtain cs rs ds where
    fl: "snd (snd (Logger_flush h lg ?b)) = ?b\<lparr>console := cs, requests := rs, delays := ds\<rparr>"
    using flush_browser by blast
  have "intervals (snd (Logger_destroy h lg b)) = intervals (snd (snd (Logger_flush h lg ?b)))"
    using t by (simp add: Logger_destroy_def Let_def console_emit_def split: prod.splits option.splits)
  then show ?thesis using fl by simp
qed

lemma Logger_new_example:
  "Logger_new accepting_host 1 no_overrides sample_ambient fresh_browser =
     Inr (\<lparr>self = 1,
           config = defaultConfig\<lparr>sessionId_cfg := Some ''lozkli68-k3j9x2q1z''\<rparr>,
           storageAdapter = StorageAdapter_new 1000,
           remoteAdapter = RemoteAdapter_new None,
           logBuffer = LogBuffer_new 50,
           sessionManager = \<lparr>sessionId_sm = ''lozkli68-k3j9x2q1z'',
                              sessionStartTime = 1700000000000\<rparr>,
           flushTimer = Some 1\<rparr>,
          fresh_browser
            \<lparr>session_item := Some \<lparr>stored_id = ''lozkli68-k3j9x2q1z'',
                 stored_startTime = 1700000000000, stored_userAgent = ''Mozilla/5.0'',
                 stored_url = ''http://localhost:3000/''\<rparr>,
             listeners := [(Document, ''visibilitychange'', VisibilityHandler 1),
                           (Window, ''beforeunload'', UnloadHandler 1),
                           (Window, ''error'', ErrorHandler 1),
                           (Window, ''unhandledrejection'', RejectionHandler 1)],
             intervals := [1], timerSeq := 1\<rparr>)"
  by (simp add: Logger_new_def SessionManager_new_def SessionManager_loadOrCreateSession_def
      SessionManager_createNewSession_def SessionManager_trackPageVisibility_def
      Logger_initializeAutoFlush_def Logger_setupErrorHandlers_def Let_def
      spreadConfig_def defaultConfig_def no_overrides_def orElse_def fresh_browser_def
      accepting_host_def sample_ambient_def)

text \<open>
  Claim C3, as the code has it. Whatever the configuration is, a constructor that
  returns has installed, after the listeners already there, the two listeners of the
  SessionManager and then the handlers for uncaught errors and for unhandled rejections
  on the window; and it returns unless \<open>console.warn\<close> throws when the SessionManager
  reports that it could not read or write the stored session. \<open>destroy\<close> stops the flush timer of the instance and leaves every listener in
  place, the two handlers of the instance included.
\<close>

theorem handlers_installed_and_kept:
  "(Logger_new h this p amb b = Inr (lg, b1) \<longrightarrow>
      listeners b1 = listeners b
        @ [(Document, ''visibilitychange'', VisibilityHandler this),
           (Window, ''beforeunload'', UnloadHandler this),
           (Window, ''error'', ErrorHandler this),
           (Window, ''unhandledrejection'', RejectionHandler this)])
   \<and> (\<not> (console_throws h \<and> (session_load_throws h \<or> session_setItem_throws h))
        \<longrightarrow> (\<exists>lg0 b0. Logger_new h this p amb b = Inr (lg0, b0)))
   \<and> listeners (snd (Logger_destroy h lg' b')) = listeners b'
   \<and> (flushTimer lg' = Some t \<longrightarrow> t \<notin> set (intervals (snd (Logger_destroy h lg' b'))))"
  using Logger_new_listeners [of h this p amb b lg b1] Logger_new_returns [of h this p amb b]
    Logger_destroy_listeners [of h lg' b'] Logger_destroy_intervals [of lg' t h b']
  by blast

theorem handlers_installed_and_kept_witness:
  "\<not> (console_throws accepting_host
        \<and> (session_load_throws accepting_host \<or> session_setItem_throws accepting_host))
   \<and> \<not> isl (Logger_new accepting_host 1 no_overrides sample_ambient fresh_browser)
   \<and> flushTimer (fst (projr (Logger_new accepting_host 1 no_overrides sample_ambient fresh_browser)))
       = Some 1
   \<and> 1 \<notin> set (intervals (snd (Logger_destroy accepting_host
        (fst (projr (Logger_new accepting_host 1 no_overrides sample_ambient fresh_browser)))
        (snd (projr (Logger_new accepting_host 1 no_overrides sample_ambient fresh_browser))))))
   \<and> listeners (snd (Logger_destroy accepting_host
        (fst (projr (Logger_new accepting_host 1 no_overrides sample_ambient fresh_browser)))
        (snd (projr (Logger_new accepting_host 1 no_overrides sample_ambient fresh_browser)))))
       = [(Document, ''visibilitychange'', VisibilityHandler 1),
          (Window, ''beforeunload'', UnloadHandler 1),
          (Window, ''error'', ErrorHandler 1),
          (Window, ''unhandledrejection'', RejectionHandler 1)]"
proof -
  let ?N = "Logger_new accepting_host 1 no_overrides sample_ambient fresh_browser"
  let ?lg = "fst (projr ?N)" and ?b = "snd (projr ?N)"
  have h0: "\<not> (console_throws accepting_host
        \<and> (session_load_throws accepting_host \<or> session_setItem_throws accepting_host))"
    by (simp add: accepting_host_def)
  note t = handlers_installed_and_kept [of accepting_host 1 no_overrides sample_ambient
      fresh_browser ?lg ?b ?lg ?b 1]
  from t h0 obtain lg0 b0 where n: "?N = Inr (lg0, b0)" by blast
  then have isr: "\<not> isl ?N" and eq: "?N = Inr (?lg, ?b)" by simp_all
  have ft: "flushTimer ?lg = Some 1" unfolding Logger_new_example by simp
  from t ft have a: "1 \<notin> set (intervals (snd (Logger_destroy accepting_host ?lg ?b)))" by blast
  from t have "listeners (snd (Logger_destroy accepting_host ?lg ?b)) = listeners ?b" by blast
  moreover from t eq have "listeners ?b = listeners fresh_browser
        @ [(Document, ''visibilitychange'', VisibilityHandler 1),
           (Window, ''beforeunload'', UnloadHandler 1),
           (Window, ''error'', ErrorHandler 1),
           (Window, ''unhandledrejection'', RejectionHandler 1)]" by blast
  ultimately have c: "listeners (snd (Logger_destroy accepting_host ?lg ?b))
       = [(Document, ''visibilitychange'', VisibilityHandler 1),
          (Window, ''beforeunload'', UnloadHandler 1),
          (Window, ''error'', ErrorHandler 1),
          (Window, ''unhandledrejection'', RejectionHandler 1)]"
    by (simp add: fresh_browser_def)
  show ?thesis using h0 isr ft a c by (intro conjI)
qed

text \<open>
  After a Logger is built in an empty page and destroyed, its handlers for uncaught
  errors and for unhandled rejections are still installed.
\<close>

theorem handlers_remain_after_destroy:
  "\<not> isl (Logger_new accepting_host 1 no_overrides sample_ambient fresh_browser)
   \<and> (Window, ''error'', ErrorHandler 1)
     \<in> set (listeners (snd (Logger_destroy accepting_host
        (fst (projr (Logger_new accepting_host 1 no_overrides sample_ambient fresh_browser)))
        (snd (projr (Logger_new accepting_host 1 no_overrides sample_ambient fresh_browser))))))
   \<and> (Window, ''unhandledrejection'', RejectionHandler 1)
     \<in> set (listeners (snd (Logger_destroy accepting_host
        (fst (projr (Logger_new accepting_host 1 no_overrides sample_ambient fresh_browser)))
        (snd (projr (Logger_new accepting_host 1 no_overrides sample_ambient fresh_browser))))))"
  unfolding Logger_new_example by (simp add: Logger_destroy_listeners)


section \<open>The durable store\<close>

lemma trim_keepLast:
  "(if int (length xs) > m then splice_front xs (int (length xs) - m) else xs) = keepLast (nat m) xs"
proof (cases "int (length xs) > m")
  case False
  then show ?thesis by (simp add: keepLast_def)
next
  case True
  show ?thesis
  proof (cases "0 \<le> m")
    case True
    with \<open>int (length xs) > m\<close> have "nat (min (max (int (length xs) - m) 0) (int (length xs)))
        = length xs - nat m" by linarith
    with \<open>int (length xs) > m\<close> show ?thesis by (simp add: splice_front_def keepLast_def)
  next
    case False
    then have "nat (min (max (int (length xs) - m) 0) (int (length xs))) = length xs" by linarith
    with False \<open>int (length xs) > m\<close> show ?thesis by (simp add: splice_front_def keepLast_def)
  qed
qed

lemma slice_from_keepLast:
  "0 < k \<Longrightarrow> slice_from xs (- k) = keepLast (nat k) xs"
proof -
  assume k: "0 < k"
  have "nat (max (int (length xs) + - k) 0) = length xs - nat k" using k by linarith
  then show ?thesis using k by (simp add: slice_from_def keepLast_def Let_def)
qed

lemma store_accepted:
  assumes "setItem_outcome h (length (ls_calls b)) = Stored"
  shows "StorageAdapter_store n h a e b =
           (None, b\<lparr>ls_calls := ls_calls b
                        @ [keepLast (nat (maxEntries a)) (StorageAdapter_retrieve b @ [e])],
                    ls_item := Some (keepLast (nat (maxEntries a)) (StorageAdapter_retrieve b @ [e]))\<rparr>)"
  using assms
  by (subst StorageAdapter_store.simps)
     (simp add: Let_def localStorage_setItem_def trim_keepLast del: length_append)

lemma store_refused:
  assumes "setItem_outcome h (length (ls_calls b)) = Refused"
  shows "StorageAdapter_store n h a e b =
           console_emit h [(Console_error, Text ''Failed to store log entry:'')]
             (b\<lparr>ls_calls := ls_calls b
                  @ [keepLast (nat (maxEntries a)) (StorageAdapter_retrieve b @ [e])]\<rparr>)"
  using assms
  by (subst StorageAdapter_store.simps)
     (simp add: Let_def localStorage_setItem_def trim_keepLast del: length_append)

lemma store_quota_room:
  assumes "setItem_outcome h (length (ls_calls b)) = QuotaExceeded"
  shows "StorageAdapter_store (Suc n) h a e b =
           StorageAdapter_store n h a e
             (StorageAdapter_clearOldEntries h a
                (b\<lparr>ls_calls := ls_calls b
                     @ [keepLast (nat (maxEntries a)) (StorageAdapter_retrieve b @ [e])]\<rparr>))"
  using assms
  by (subst StorageAdapter_store.simps)
     (simp add: Let_def localStorage_setItem_def trim_keepLast del: length_append)

lemma store_quota_no_room:
  assumes "setItem_outcome h (length (ls_calls b)) = QuotaExceeded"
  shows "StorageAdapter_store 0 h a e b =
           (Some RangeError,
            StorageAdapter_clearOldEntries h a
              (b\<lparr>ls_calls := ls_calls b
                   @ [keepLast (nat (maxEntries a)) (StorageAdapter_retrieve b @ [e])]\<rparr>))"
  using assms
  by (subst StorageAdapter_store.simps)
     (simp add: Let_def localStorage_setItem_def trim_keepLast del: length_append)

lemma clearOldEntries_accepted:
  assumes "setItem_outcome h (length (ls_calls b)) = Stored"
  shows "StorageAdapter_clearOldEntries h a b =
           b\<lparr>ls_calls := ls_calls b
                 @ [slice_from (StorageAdapter_retrieve b) (- (maxEntries a div 2))],
             ls_item := Some (slice_from (StorageAdapter_retrieve b) (- (maxEntries a div 2)))\<rparr>"
  using assms by (simp add: StorageAdapter_clearOldEntries_def Let_def localStorage_setItem_def)

lemma clearOldEntries_failed:
  assumes "setItem_outcome h (length (ls_calls b)) \<noteq> Stored"
  shows "StorageAdapter_clearOldEntries h a b =
           b\<lparr>ls_calls := ls_calls b
                 @ [slice_from (StorageAdapter_retrieve b) (- (maxEntries a div 2))],
             ls_item := None\<rparr>"
  using assms
  by (cases "setItem_outcome h (length (ls_calls b))")
     (simp_all add: StorageAdapter_clearOldEntries_def Let_def localStorage_setItem_def
        StorageAdapter_clear_def)

text \<open>
  The first value \<open>store\<close> passes to \<open>setItem\<close> is the stored entries with the new one
  appended, cut to the capacity; whatever the outcome, that call is made.
\<close>

lemma clearOldEntries_calls:
  "\<exists>cs. ls_calls (StorageAdapter_clearOldEntries h a b) = ls_calls b @ cs"
  by (cases "setItem_outcome h (length (ls_calls b)) = Stored")
     (simp_all add: clearOldEntries_accepted clearOldEntries_failed)

lemma store_first_call:
  "\<exists>cs. ls_calls (snd (StorageAdapter_store n h a e b)) =
          ls_calls b @ keepLast (nat (maxEntries a)) (StorageAdapter_retrieve b @ [e]) # cs"
proof (induction n arbitrary: b)
  case 0
  let ?b = "b\<lparr>ls_calls := ls_calls b
                   @ [keepLast (nat (maxEntries a)) (StorageAdapter_retrieve b @ [e])]\<rparr>"
  show ?case
  proof (cases "setItem_outcome h (length (ls_calls b))")
    case Stored
    then show ?thesis by (simp add: store_accepted)
  next
    case Refused
    then show ?thesis by (simp add: store_refused console_emit_def)
  next
    case QuotaExceeded
    then show ?thesis using clearOldEntries_calls [of h a ?b]
      by (auto simp: store_quota_no_room)
  qed
next
  case (Suc n)
  let ?b = "b\<lparr>ls_calls := ls_calls b
                   @ [keepLast (nat (maxEntries a)) (StorageAdapter_retrieve b @ [e])]\<rparr>"
  show ?case
  proof (cases "setItem_outcome h (length (ls_calls b))")
    case Stored
    then show ?thesis by (simp add: store_accepted)
  next
    case Refused
    then show ?thesis by (simp add: store_refused console_emit_def)
  next
    case QuotaExceeded
    obtain cs where cs: "ls_calls (StorageAdapter_clearOldEntries h a ?b) = ls_calls ?b @ cs"
      using clearOldEntries_calls by blast
    from Suc.IH [of "StorageAdapter_clearOldEntries h a ?b"]
    obtain ds where "ls_calls (snd (StorageAdapter_store n h a e
          (StorageAdapter_clearOldEntries h a ?b))) =
        ls_calls (StorageAdapter_clearOldEntries h a ?b) @ ds"
      by auto
    then show ?thesis using cs QuotaExceeded by (simp add: store_quota_room)
  qed
qed

text \<open>
  A write refused for quota, followed by an accepted write of \<open>clearOldEntries\<close> and an
  accepted write of the nested call: one retry, three writes, nothing on the console; the
  store then holds the newest \<open>floor(maxEntries / 2)\<close> of the old entries and the new one.
\<close>

lemma store_retry_accepted:
  assumes "setItem_outcome h (length (ls_calls b)) = QuotaExceeded"
    and "setItem_outcome h (length (ls_calls b) + 1) = Stored"
    and "setItem_outcome h (length (ls_calls b) + 2) = Stored"
  shows "fst (StorageAdapter_store (Suc n) h a e b) = None
       \<and> console (snd (StorageAdapter_store (Suc n) h a e b)) = console b
       \<and> length (ls_calls (snd (StorageAdapter_store (Suc n) h a e b))) = length (ls_calls b) + 3
       \<and> StorageAdapter_retrieve (snd (StorageAdapter_store (Suc n) h a e b)) =
           keepLast (nat (maxEntries a))
             (slice_from (StorageAdapter_retrieve b) (- (maxEntries a div 2)) @ [e])"
proof -
  let ?b1 = "b\<lparr>ls_calls := ls_calls b
                   @ [keepLast (nat (maxEntries a)) (StorageAdapter_retrieve b @ [e])]\<rparr>"
  let ?b2 = "StorageAdapter_clearOldEntries h a ?b1"
  have r1: "StorageAdapter_retrieve ?b1 = StorageAdapter_retrieve b"
    by (simp add: StorageAdapter_retrieve_def)
  have c: "?b2 = ?b1\<lparr>ls_calls := ls_calls ?b1
                 @ [slice_from (StorageAdapter_retrieve b) (- (maxEntries a div 2))],
             ls_item := Some (slice_from (StorageAdapter_retrieve b) (- (maxEntries a div 2)))\<rparr>"
    using assms(2) clearOldEntries_accepted [of h ?b1 a] r1 by simp
  have l2: "length (ls_calls ?b2) = length (ls_calls b) + 2" unfolding c by simp
  have s: "StorageAdapter_store (Suc n) h a e b = StorageAdapter_store n h a e ?b2"
    using assms(1) by (rule store_quota_room)
  have "setItem_outcome h (length (ls_calls ?b2)) = Stored" using assms(3) l2 by simp
  from store_accepted [OF this, of n a e]
  have st: "StorageAdapter_store n h a e ?b2 =
      (None, ?b2\<lparr>ls_calls := ls_calls ?b2
                     @ [keepLast (nat (maxEntries a)) (StorageAdapter_retrieve ?b2 @ [e])],
                 ls_item := Some (keepLast (nat (maxEntries a))
                                   (StorageAdapter_retrieve ?b2 @ [e]))\<rparr>)" .
  have r2: "StorageAdapter_retrieve ?b2 =
      slice_from (StorageAdapter_retrieve b) (- (maxEntries a div 2))"
    unfolding c by (simp add: StorageAdapter_retrieve_def)
  have c2: "console ?b2 = console b" unfolding c by simp
  show ?thesis
    unfolding s st using l2 r2 c2 by (simp add: StorageAdapter_retrieve_def)
qed

text \<open>
  A store whose every write is refused for quota: \<open>store\<close> calls itself until the stack
  has no room left, two writes for each call, and throws \<open>RangeError\<close>; nothing goes
  to the console and the stored item is removed.
\<close>

lemma store_persistent_quota:
  assumes "\<forall>k. setItem_outcome h k = QuotaExceeded"
  shows "fst (StorageAdapter_store n h a e b) = Some RangeError
       \<and> console (snd (StorageAdapter_store n h a e b)) = console b
       \<and> requests (snd (StorageAdapter_store n h a e b)) = requests b
       \<and> ls_item (snd (StorageAdapter_store n h a e b)) = None
       \<and> length (ls_calls (snd (StorageAdapter_store n h a e b))) = length (ls_calls b) + 2 * Suc n"
proof (induction n arbitrary: b)
  case 0
  show ?case using assms
    by (simp add: store_quota_no_room clearOldEntries_failed)
next
  case (Suc n)
  show ?case using assms Suc.IH
    by (simp add: store_quota_room clearOldEntries_failed)
qed

lemma retrieve_written [simp]:
  "StorageAdapter_retrieve (b\<lparr>ls_calls := w, ls_item := Some xs\<rparr>) = xs"
  by (simp add: StorageAdapter_retrieve_def)

lemma store_all_accepting:
  assumes "\<forall>k. setItem_outcome h k = Stored"
    and "length (StorageAdapter_retrieve b) \<le> nat (maxEntries a)"
  shows "\<exists>b'. store_all h a es b = Some b'
            \<and> StorageAdapter_retrieve b' = keepLast (nat (maxEntries a)) (StorageAdapter_retrieve b @ es)"
  using assms(2)
proof (induction es arbitrary: b)
  case Nil
  then show ?case by (simp add: keepLast_def)
next
  case (Cons e es)
  let ?b = "b\<lparr>ls_calls := ls_calls b
                  @ [keepLast (nat (maxEntries a)) (StorageAdapter_retrieve b @ [e])],
              ls_item := Some (keepLast (nat (maxEntries a)) (StorageAdapter_retrieve b @ [e]))\<rparr>"
  have st: "StorageAdapter_store (stackFrames h) h a e b = (None, ?b)"
    using assms(1) by (simp add: store_accepted)
  have "length (StorageAdapter_retrieve ?b) \<le> nat (maxEntries a)" by simp
  from Cons.IH [OF this] obtain b' where b': "store_all h a es ?b = Some b'"
    "StorageAdapter_retrieve b' =
       keepLast (nat (maxEntries a)) (StorageAdapter_retrieve ?b @ es)"
    by blast
  have "StorageAdapter_retrieve b' =
      keepLast (nat (maxEntries a)) ((StorageAdapter_retrieve b @ [e]) @ es)"
    using b'(2) by (simp only: retrieve_written keepLast_append_keepLast)
  then show ?case using st b'(1) by simp
qed

lemma insort_key_last:
  fixes f :: "'a \<Rightarrow> int"
  shows "\<forall>y\<in>set ys. f y < f x \<Longrightarrow> insort_key f x ys = ys @ [x]"
  by (induction ys) auto

lemma sort_newest_first:
  "sorted_wrt (<) (map timestamp xs) \<Longrightarrow> sort_key (\<lambda>e. - timestamp e) xs = rev xs"
proof (induction xs)
  case Nil
  then show ?case by simp
next
  case (Cons x xs)
  then have "sort_key (\<lambda>e. - timestamp e) xs = rev xs" by simp
  moreover have "\<forall>y\<in>set (rev xs). - timestamp y < - timestamp x"
    using Cons.prems by auto
  ultimately show ?case by (simp add: insort_key_last)
qed

text \<open>
  Claim C5, as the code has it. On a store that starts empty and accepts every write,
  \<open>n\<close> stores in sequence leave exactly the most recent \<open>min n C\<close> entries, \<open>C\<close> being the
  capacity; \<open>StorageAdapter.retrieve\<close> returns them oldest first, and \<open>getLogs\<close> returns
  them sorted by descending timestamp with a stable sort, which is newest first when
  the timestamps of the entries stored increase strictly.
\<close>

theorem durable_store_keeps_most_recent:
  assumes "\<forall>k. setItem_outcome h k = Stored" and "ls_item b = None"
  shows "\<exists>b'. store_all h a es b = Some b'
            \<and> StorageAdapter_retrieve b' = keepLast (nat (maxEntries a)) es
            \<and> length (StorageAdapter_retrieve b') = min (nat (maxEntries a)) (length es)
            \<and> Logger_getLogs None b' =
                sort_key (\<lambda>e. - timestamp e) (keepLast (nat (maxEntries a)) es)
            \<and> (sorted_wrt (<) (map timestamp es)
                 \<longrightarrow> Logger_getLogs None b' = rev (keepLast (nat (maxEntries a)) es))"
proof -
  have "length (StorageAdapter_retrieve b) \<le> nat (maxEntries a)"
    and empty: "StorageAdapter_retrieve b = []"
    using assms(2) by (simp_all add: StorageAdapter_retrieve_def)
  from store_all_accepting [OF assms(1) this(1), of es]
  obtain b' where b': "store_all h a es b = Some b'"
    "StorageAdapter_retrieve b' = keepLast (nat (maxEntries a)) es"
    using empty by auto
  have logs: "Logger_getLogs None b' =
      sort_key (\<lambda>e. - timestamp e) (keepLast (nat (maxEntries a)) es)"
    by (simp add: Logger_getLogs_def b'(2))
  have "Logger_getLogs None b' = rev (keepLast (nat (maxEntries a)) es)"
    if "sorted_wrt (<) (map timestamp es)"
  proof -
    from that have "sorted_wrt (<) (map timestamp (keepLast (nat (maxEntries a)) es))"
      by (simp add: keepLast_def drop_map [symmetric] sorted_wrt_drop)
    then show ?thesis unfolding logs by (rule sort_newest_first)
  qed
  with b' logs show ?thesis by simp
qed

theorem durable_store_keeps_most_recent_witness:
  "(\<forall>k. setItem_outcome accepting_host k = Stored) \<and> ls_item fresh_browser = None
   \<and> sorted_wrt (<) (map timestamp
        [sample_entry ''A'' 1, sample_entry ''B'' 2, sample_entry ''C'' 3, sample_entry ''D'' 4])
   \<and> map_option (Logger_getLogs None)
        (store_all accepting_host (StorageAdapter_new 3)
           [sample_entry ''A'' 1, sample_entry ''B'' 2, sample_entry ''C'' 3, sample_entry ''D'' 4]
           fresh_browser)
       = Some [sample_entry ''D'' 4, sample_entry ''C'' 3, sample_entry ''B'' 2]"
proof -
  let ?es = "[sample_entry ''A'' 1, sample_entry ''B'' 2, sample_entry ''C'' 3, sample_entry ''D'' 4]"
  have h1: "\<forall>k. setItem_outcome accepting_host k = Stored" by (simp add: accepting_host_def)
  have h2: "ls_item fresh_browser = None" by (simp add: fresh_browser_def)
  have h3: "sorted_wrt (<) (map timestamp ?es)" by (simp add: sample_entry_def)
  from durable_store_keeps_most_recent [OF h1 h2, of "StorageAdapter_new 3" ?es] h3
  obtain b' where "store_all accepting_host (StorageAdapter_new 3) ?es fresh_browser = Some b'"
    and "Logger_getLogs None b' = rev (keepLast (nat (maxEntries (StorageAdapter_new 3))) ?es)"
    by blast
  then have "map_option (Logger_getLogs None)
        (store_all accepting_host (StorageAdapter_new 3) ?es fresh_browser)
       = Some [sample_entry ''D'' 4, sample_entry ''C'' 3, sample_entry ''B'' 2]"
    by (simp add: StorageAdapter_new_def keepLast_def)
  with h1 h2 h3 show ?thesis by (intro conjI)
qed

text \<open>
  Four entries logged in the same millisecond, stored in a store of capacity 3:
  \<open>getLogs\<close> returns the three retained in the order they were stored.
\<close>

theorem same_millisecond_oldest_first:
  "map_option (Logger_getLogs None)
     (store_all accepting_host (StorageAdapter_new 3)
        [sample_entry ''A'' 5, sample_entry ''B'' 5, sample_entry ''C'' 5, sample_entry ''D'' 5]
        fresh_browser)
     = Some [sample_entry ''B'' 5, sample_entry ''C'' 5, sample_entry ''D'' 5]
   \<and> [sample_entry ''B'' 5, sample_entry ''C'' 5, sample_entry ''D'' 5]
       \<noteq> [sample_entry ''D'' 5, sample_entry ''C'' 5, sample_entry ''B'' 5]"
proof -
  let ?es = "[sample_entry ''A'' 5, sample_entry ''B'' 5, sample_entry ''C'' 5, sample_entry ''D'' 5]"
  have h1: "\<forall>k. setItem_outcome accepting_host k = Stored" by (simp add: accepting_host_def)
  have h2: "length (StorageAdapter_retrieve fresh_browser) \<le> nat (maxEntries (StorageAdapter_new 3))"
    by (simp add: fresh_browser_def StorageAdapter_retrieve_def)
  from store_all_accepting [OF h1 h2, of ?es]
  obtain b' where "store_all accepting_host (StorageAdapter_new 3) ?es fresh_browser = Some b'"
    and "StorageAdapter_retrieve b' =
      keepLast (nat (maxEntries (StorageAdapter_new 3))) (StorageAdapter_retrieve fresh_browser @ ?es)"
    by blast
  then have "map_option (Logger_getLogs None)
     (store_all accepting_host (StorageAdapter_new 3) ?es fresh_browser)
     = Some [sample_entry ''B'' 5, sample_entry ''C'' 5, sample_entry ''D'' 5]"
    by (simp add: Logger_getLogs_def StorageAdapter_new_def keepLast_def fresh_browser_def
        StorageAdapter_retrieve_def sample_entry_def)
  moreover have "[sample_entry ''B'' 5, sample_entry ''C'' 5, sample_entry ''D'' 5]
       \<noteq> [sample_entry ''D'' 5, sample_entry ''C'' 5, sample_entry ''B'' 5]"
    by (simp add: sample_entry_def)
  ultimately show ?thesis by (intro conjI)
qed


text \<open>
  Claim C1, on a store that refuses every write for quota. Whatever the capacity, the
  entry and the stored entries are, a call of \<open>store\<close> with room for \<open>frames\<close> nested calls
  on the stack retries \<open>frames\<close> times and not once: every call writes twice (its own
  write, then the write of \<open>clearOldEntries\<close>), so \<open>2 * (frames + 1)\<close> writes are made.
  The call ends by throwing \<open>RangeError\<close> to its caller; nothing is reported on the
  console, and the stored item is removed.
\<close>

theorem persistent_quota_exhausts_stack:
  "(\<forall>k. setItem_outcome h k = QuotaExceeded) \<longrightarrow>
     fst (StorageAdapter_store frames h a entry b) = Some RangeError
   \<and> console (snd (StorageAdapter_store frames h a entry b)) = console b
   \<and> ls_item (snd (StorageAdapter_store frames h a entry b)) = None
   \<and> length (ls_calls (snd (StorageAdapter_store frames h a entry b)))
       = length (ls_calls b) + 2 * (frames + 1)"
proof
  assume q: "\<forall>k. setItem_outcome h k = QuotaExceeded"
  from store_persistent_quota [OF q, of frames a entry b]
  show "fst (StorageAdapter_store frames h a entry b) = Some RangeError
   \<and> console (snd (StorageAdapter_store frames h a entry b)) = console b
   \<and> ls_item (snd (StorageAdapter_store frames h a entry b)) = None
   \<and> length (ls_calls (snd (StorageAdapter_store frames h a entry b)))
       = length (ls_calls b) + 2 * (frames + 1)"
    by simp
qed

text \<open>
  A store of capacity 10 that holds two entries, on a stack with room for three nested
  calls: the call of \<open>store\<close> for a third entry writes eight times. It writes the entries
  with the new one, then the entries cut to the newest five (both are kept); that write
  failing too, the item is removed, and three more times the new entry alone and the
  empty list are written.
\<close>

theorem persistent_quota_exhausts_stack_witness:
  "(\<forall>k. setItem_outcome exhausted_host k = QuotaExceeded)
   \<and> fst (StorageAdapter_store 3 exhausted_host (StorageAdapter_new 10)
            (sample_entry ''C'' 3) stocked_browser) = Some RangeError
   \<and> console (snd (StorageAdapter_store 3 exhausted_host (StorageAdapter_new 10)
            (sample_entry ''C'' 3) stocked_browser)) = []
   \<and> length (ls_calls (snd (StorageAdapter_store 3 exhausted_host (StorageAdapter_new 10)
            (sample_entry ''C'' 3) stocked_browser))) = 8
   \<and> StorageAdapter_store 3 exhausted_host (StorageAdapter_new 10)
        (sample_entry ''C'' 3) stocked_browser
      = (Some RangeError,
         stocked_browser
           \<lparr>ls_item := None,
            ls_calls := [[sample_entry ''A'' 1, sample_entry ''B'' 2, sample_entry ''C'' 3],
                         [sample_entry ''A'' 1, sample_entry ''B'' 2],
                         [sample_entry ''C'' 3], [],
                         [sample_entry ''C'' 3], [],
                         [sample_entry ''C'' 3], []]\<rparr>)"
proof -
  have q: "\<forall>k. setItem_outcome exhausted_host k = QuotaExceeded"
    by (simp add: exhausted_host_def)
  note t = persistent_quota_exhausts_stack [of exhausted_host 3 "StorageAdapter_new 10"
      "sample_entry ''C'' 3" stocked_browser]
  from t q have a: "fst (StorageAdapter_store 3 exhausted_host (StorageAdapter_new 10)
            (sample_entry ''C'' 3) stocked_browser) = Some RangeError" by blast
  from t q have "console (snd (StorageAdapter_store 3 exhausted_host (StorageAdapter_new 10)
            (sample_entry ''C'' 3) stocked_browser)) = console stocked_browser" by blast
  then have b: "console (snd (StorageAdapter_store 3 exhausted_host (StorageAdapter_new 10)
            (sample_entry ''C'' 3) stocked_browser)) = []"
    by (simp add: stocked_browser_def fresh_browser_def)
  from t q have "length (ls_calls (snd (StorageAdapter_store 3 exhausted_host
            (StorageAdapter_new 10) (sample_entry ''C'' 3) stocked_browser)))
       = length (ls_calls stocked_browser) + 2 * (3 + 1)" by blast
  then have c: "length (ls_calls (snd (StorageAdapter_store 3 exhausted_host
            (StorageAdapter_new 10) (sample_entry ''C'' 3) stocked_browser))) = 8"
    by (simp add: stocked_browser_def fresh_browser_def)
  have q': "setItem_outcome exhausted_host k = QuotaExceeded" for k
    by (simp add: exhausted_host_def)
  have d: "StorageAdapter_store 3 exhausted_host (StorageAdapter_new 10)
        (sample_entry ''C'' 3) stocked_browser
      = (Some RangeError,
         stocked_browser
           \<lparr>ls_item := None,
            ls_calls := [[sample_entry ''A'' 1, sample_entry ''B'' 2, sample_entry ''C'' 3],
                         [sample_entry ''A'' 1, sample_entry ''B'' 2],
                         [sample_entry ''C'' 3], [],
                         [sample_entry ''C'' 3], [],
                         [sample_entry ''C'' 3], []]\<rparr>)"
    unfolding numeral_3_eq_3
    by (simp add: store_quota_room store_quota_no_room clearOldEntries_failed q'
        StorageAdapter_new_def StorageAdapter_retrieve_def stocked_browser_def fresh_browser_def
        keepLast_def slice_from_def Let_def)
  show ?thesis using q a b c d by (intro conjI)
qed


section \<open>The level filter and the fan-out of \<open>log\<close>\<close>

lemma shouldLog_severity:
  "Logger_shouldLog c l \<longleftrightarrow> severity (level_cfg c) \<le> severity l"
  by (cases "level_cfg c"; cases l) (simp_all add: Logger_shouldLog_def Let_def)

lemma flush_catch_quiet:
  "\<not> console_throws h \<Longrightarrow> fst (Logger_flush_catch h es lg b) = None"
  by (simp add: Logger_flush_catch_def console_emit_def Let_def)

lemma flush_quiet:
  "\<not> console_throws h \<Longrightarrow> fst (Logger_flush h lg b) = None"
  by (auto simp: Logger_flush_def LogBuffer_flush_def Let_def flush_catch_quiet
      split: prod.splits option.splits)

lemma flush_throws_only_with_console:
  "fst (Logger_flush h lg b) = Some err \<Longrightarrow> console_throws h"
  using flush_quiet [of h lg b] by auto

lemma store_console_appends:
  "\<exists>cs. console (snd (StorageAdapter_store n h a e b)) = console b @ cs"
proof (induction n arbitrary: b)
  case 0
  show ?case
    by (cases "setItem_outcome h (length (ls_calls b))";
        cases "setItem_outcome h (Suc (length (ls_calls b))) = Stored")
       (simp_all add: store_accepted store_refused store_quota_no_room console_emit_def
          clearOldEntries_accepted clearOldEntries_failed)
next
  case (Suc n)
  let ?b = "StorageAdapter_clearOldEntries h a
      (b\<lparr>ls_calls := ls_calls b
           @ [keepLast (nat (maxEntries a)) (StorageAdapter_retrieve b @ [e])]\<rparr>)"
  have c: "console ?b = console b"
    by (cases "setItem_outcome h (Suc (length (ls_calls b))) = Stored")
       (simp_all add: clearOldEntries_accepted clearOldEntries_failed)
  show ?case
  proof (cases "setItem_outcome h (length (ls_calls b))")
    case Stored
    then show ?thesis by (simp add: store_accepted)
  next
    case Refused
    then show ?thesis by (simp add: store_refused console_emit_def)
  next
    case QuotaExceeded
    then show ?thesis using Suc.IH [of ?b] c by (simp add: store_quota_room)
  qed
qed

lemma flush_console_appends:
  "\<exists>cs. console (snd (snd (Logger_flush h lg b))) = console b @ cs"
proof (cases "enableRemote (config lg) \<and> LogBuffer_size (logBuffer lg) > 0")
  case False
  then show ?thesis by (auto simp: Logger_flush_def)
next
  case True
  let ?r = "RemoteAdapter_sendBatch h (remoteAdapter lg) (buffer (logBuffer lg)) b"
  obtain rs ds where sb: "snd ?r = b\<lparr>requests := rs, delays := ds\<rparr>"
    using sendBatch_frame by blast
  then have "console (snd ?r) = console b" by simp
  then show ?thesis using True
    by (cases ?r; cases "fst ?r")
       (auto simp: Logger_flush_def LogBuffer_flush_def Logger_flush_catch_def console_emit_def
          Let_def)
qed

lemma flush_ls:
  "ls_calls (snd (snd (Logger_flush h lg b))) = ls_calls b
   \<and> ls_item (snd (snd (Logger_flush h lg b))) = ls_item b"
proof -
  obtain cs rs ds where
    "snd (snd (Logger_flush h lg b)) = b\<lparr>console := cs, requests := rs, delays := ds\<rparr>"
    using flush_browser by blast
  then show ?thesis by simp
qed


lemma log_below:
  "\<not> Logger_shouldLog (config lg) l \<Longrightarrow> Logger_log h lg amb l msg cname meta b = (None, lg, b)"
  by (simp add: Logger_log_def)

lemma log_console_throws:
  assumes "Logger_shouldLog (config lg) l" and "enableConsole (config lg)" and "console_throws h"
  shows "Logger_log h lg amb l msg cname meta b =
           (None, lg\<lparr>logBuffer := LogBuffer_add (logBuffer lg)
                       (Logger_createLogEntry (config lg) amb l msg cname meta)\<rparr>, b)"
  using assms
  by (simp add: Logger_log_def Logger_processLogEntry_def ConsoleAdapter_log_def
      console_emit_def Let_def)

lemma flush_then_catch:
  "(case Logger_flush h lg b of
      (None, lg1, b1) \<Rightarrow> (None, lg1, b1)
    | (Some err, lg1, b1) \<Rightarrow>
        (None, lg1, snd (console_emit h [(Console_error, Text ''Failed to process log entry:'')] b1)))
   = (None, snd (Logger_flush h lg b))"
proof (cases "Logger_flush h lg b")
  case (fields r lg1 b1)
  show ?thesis
  proof (cases r)
    case None
    with fields show ?thesis by simp
  next
    case (Some err)
    with fields have "console_throws h"
      using flush_throws_only_with_console [of h lg b err] by simp
    with fields Some show ?thesis by (simp add: console_emit_def)
  qed
qed

text \<open>
  \<open>log\<close> at or above the threshold, when the console sink does not throw: the console
  calls are made if the console is enabled, then \<open>store\<close> is called if storage is
  enabled; if \<open>store\<close> throws the rejection is reported, otherwise the buffer is flushed
  when remote delivery is enabled and the buffer is full.
\<close>

lemma log_fan_out:
  assumes "Logger_shouldLog (config lg) l" and "\<not> (enableConsole (config lg) \<and> console_throws h)"
  shows "Logger_log h lg amb l msg cname meta b =
     (let e = Logger_createLogEntry (config lg) amb l msg cname meta;
          lg1 = lg\<lparr>logBuffer := LogBuffer_add (logBuffer lg) e\<rparr>;
          b1 = (if enableConsole (config lg)
                then b\<lparr>console := console b @ ConsoleAdapter_calls e\<rparr> else b)
      in case (if enableStorage (config lg)
               then StorageAdapter_store (stackFrames h) h (storageAdapter lg) e b1
               else (None, b1)) of
           (Some err, b2) \<Rightarrow>
             (None, lg1,
              snd (console_emit h [(Console_error, Text ''Failed to process log entry:'')] b2))
         | (None, b2) \<Rightarrow>
             if enableRemote (config lg) \<and> LogBuffer_isFull (logBuffer lg1)
             then (None, snd (Logger_flush h lg1 b2)) else (None, lg1, b2))"
proof -
  let ?e = "Logger_createLogEntry (config lg) amb l msg cname meta"
  let ?lg1 = "lg\<lparr>logBuffer := LogBuffer_add (logBuffer lg) ?e\<rparr>"
  let ?b1 = "if enableConsole (config lg)
             then b\<lparr>console := console b @ ConsoleAdapter_calls ?e\<rparr> else b"
  let ?S = "if enableStorage (config lg)
            then StorageAdapter_store (stackFrames h) h (storageAdapter lg) ?e ?b1
            else (None, ?b1)"
  have con: "(if enableConsole (config ?lg1) then ConsoleAdapter_log h ?e b else (None, b))
      = (None, ?b1)"
    using assms(2) by (simp add: ConsoleAdapter_log_def console_emit_def)
  obtain r b2 where S: "?S = (r, b2)" by (cases ?S)
  then have S': "(if enableStorage (config ?lg1)
            then StorageAdapter_store (stackFrames h) h (storageAdapter ?lg1) ?e ?b1
            else (None, ?b1)) = (r, b2)" by (auto split: if_splits)
  have p: "Logger_processLogEntry h lg ?e b =
      (case r of Some err \<Rightarrow> (Some err, ?lg1, b2)
       | None \<Rightarrow> if enableRemote (config lg) \<and> LogBuffer_isFull (logBuffer ?lg1)
                  then Logger_flush h ?lg1 b2 else (None, ?lg1, b2))"
    using assms(2) S
    by (cases "enableConsole (config lg)"; cases "enableStorage (config lg)"; cases r)
       (simp_all add: Logger_processLogEntry_def Let_def ConsoleAdapter_log_def console_emit_def)
  have "Logger_log h lg amb l msg cname meta b =
      (case r of
         Some err \<Rightarrow>
           (None, ?lg1,
            snd (console_emit h [(Console_error, Text ''Failed to process log entry:'')] b2))
       | None \<Rightarrow>
           if enableRemote (config lg) \<and> LogBuffer_isFull (logBuffer ?lg1)
           then (None, snd (Logger_flush h ?lg1 b2)) else (None, ?lg1, b2))"
  proof (cases r)
    case (Some err)
    then show ?thesis using assms(1) p by (simp add: Logger_log_def)
  next
    case None
    show ?thesis
    proof (cases "enableRemote (config lg) \<and> LogBuffer_isFull (logBuffer ?lg1)")
      case True
      with None p have "Logger_processLogEntry h lg ?e b = Logger_flush h ?lg1 b2" by auto
      then have "Logger_log h lg amb l msg cname meta b = (None, snd (Logger_flush h ?lg1 b2))"
        using assms(1) flush_then_catch [of h ?lg1 b2] by (simp add: Logger_log_def)
      with True None show ?thesis by auto
    next
      case False
      with None p have "Logger_processLogEntry h lg ?e b = (None, ?lg1, b2)" by auto
      then have "Logger_log h lg amb l msg cname meta b = (None, ?lg1, b2)"
        using assms(1) by (simp add: Logger_log_def)
      with False None show ?thesis by auto
    qed
  qed
  then show ?thesis using S
    by (cases "enableConsole (config lg)"; cases "enableStorage (config lg)"; cases r)
       (simp_all add: Let_def)
qed


lemma console_emit_frame:
  "ls_calls (snd (console_emit h cs b)) = ls_calls b
   \<and> ls_item (snd (console_emit h cs b)) = ls_item b
   \<and> requests (snd (console_emit h cs b)) = requests b
   \<and> (\<exists>ds. console (snd (console_emit h cs b)) = console b @ ds)"
  by (simp add: console_emit_def)

lemma log_ring_buffer:
  assumes "Logger_shouldLog (config lg) l"
    and "\<not> (enableRemote (config lg)
            \<and> LogBuffer_isFull (LogBuffer_add (logBuffer lg)
                  (Logger_createLogEntry (config lg) amb l msg cname meta)))"
  shows "fst (snd (Logger_log h lg amb l msg cname meta b)) =
           lg\<lparr>logBuffer := LogBuffer_add (logBuffer lg)
                 (Logger_createLogEntry (config lg) amb l msg cname meta)\<rparr>"
proof (cases "enableConsole (config lg) \<and> console_throws h")
  case True
  then show ?thesis using assms(1) by (simp add: log_console_throws)
next
  case False
  let ?e = "Logger_createLogEntry (config lg) amb l msg cname meta"
  let ?b1 = "if enableConsole (config lg)
             then b\<lparr>console := console b @ ConsoleAdapter_calls ?e\<rparr> else b"
  obtain r b2 where "(if enableStorage (config lg)
               then StorageAdapter_store (stackFrames h) h (storageAdapter lg) ?e ?b1
               else (None, ?b1)) = (r, b2)"
    by (metis surj_pair)
  then show ?thesis
    using log_fan_out [OF assms(1) False, of amb msg cname meta b] assms(2)
    by (cases r) (auto simp: Let_def)
qed

lemma log_console_offered:
  assumes "Logger_shouldLog (config lg) l" and "enableConsole (config lg)"
    and "\<not> console_throws h"
  shows "\<exists>cs. console (snd (snd (Logger_log h lg amb l msg cname meta b))) =
           console b @ ConsoleAdapter_calls (Logger_createLogEntry (config lg) amb l msg cname meta)
             @ cs"
proof -
  let ?e = "Logger_createLogEntry (config lg) amb l msg cname meta"
  let ?lg1 = "lg\<lparr>logBuffer := LogBuffer_add (logBuffer lg) ?e\<rparr>"
  let ?b1 = "b\<lparr>console := console b @ ConsoleAdapter_calls ?e\<rparr>"
  let ?S = "if enableStorage (config lg)
               then StorageAdapter_store (stackFrames h) h (storageAdapter lg) ?e ?b1
               else (None, ?b1)"
  obtain r b2 where S: "?S = (r, b2)" by (metis surj_pair)
  have "\<exists>cs. console (snd ?S) = console ?b1 @ cs"
    using store_console_appends [of "stackFrames h" h "storageAdapter lg" ?e ?b1] by auto
  then obtain cs where cs: "console b2 = console b @ ConsoleAdapter_calls ?e @ cs"
    using S by auto
  have nt: "\<not> (enableConsole (config lg) \<and> console_throws h)" using assms(3) by simp
  note f = log_fan_out [OF assms(1) nt, of amb msg cname meta b]
  show ?thesis
  proof (cases r)
    case (Some err)
    then have "Logger_log h lg amb l msg cname meta b =
        (None, ?lg1, snd (console_emit h [(Console_error, Text ''Failed to process log entry:'')] b2))"
      using f S assms(2) by (simp add: Let_def)
    then show ?thesis using cs assms(3) by (simp add: console_emit_def)
  next
    case None
    show ?thesis
    proof (cases "enableRemote (config lg) \<and> LogBuffer_isFull (logBuffer ?lg1)")
      case True
      with None have "Logger_log h lg amb l msg cname meta b = (None, snd (Logger_flush h ?lg1 b2))"
        using f S assms(2) by (auto simp: Let_def)
      moreover obtain ds where "console (snd (snd (Logger_flush h ?lg1 b2))) = console b2 @ ds"
        using flush_console_appends by blast
      ultimately show ?thesis using cs by simp
    next
      case False
      with None have "Logger_log h lg amb l msg cname meta b = (None, ?lg1, b2)"
        using f S assms(2) by (auto simp: Let_def)
      then show ?thesis using cs by simp
    qed
  qed
qed

lemma log_store_offered:
  assumes "Logger_shouldLog (config lg) l" and "enableStorage (config lg)"
    and "\<not> (enableConsole (config lg) \<and> console_throws h)"
  shows "\<exists>cs. ls_calls (snd (snd (Logger_log h lg amb l msg cname meta b))) =
           ls_calls b
           @ keepLast (nat (maxEntries (storageAdapter lg)))
               (StorageAdapter_retrieve b @ [Logger_createLogEntry (config lg) amb l msg cname meta])
           # cs"
proof -
  let ?e = "Logger_createLogEntry (config lg) amb l msg cname meta"
  let ?lg1 = "lg\<lparr>logBuffer := LogBuffer_add (logBuffer lg) ?e\<rparr>"
  let ?b1 = "if enableConsole (config lg)
             then b\<lparr>console := console b @ ConsoleAdapter_calls ?e\<rparr> else b"
  let ?S = "StorageAdapter_store (stackFrames h) h (storageAdapter lg) ?e ?b1"
  obtain r b2 where S: "?S = (r, b2)" by (metis surj_pair)
  have b1: "ls_calls ?b1 = ls_calls b" "StorageAdapter_retrieve ?b1 = StorageAdapter_retrieve b"
    by (simp_all add: StorageAdapter_retrieve_def)
  obtain cs where cs: "ls_calls b2 = ls_calls b
      @ keepLast (nat (maxEntries (storageAdapter lg))) (StorageAdapter_retrieve b @ [?e]) # cs"
    using store_first_call [of "stackFrames h" h "storageAdapter lg" ?e ?b1] S b1 by auto
  note f = log_fan_out [OF assms(1) assms(3), of amb msg cname meta b]
  show ?thesis
  proof (cases r)
    case (Some err)
    then have "Logger_log h lg amb l msg cname meta b =
        (None, ?lg1, snd (console_emit h [(Console_error, Text ''Failed to process log entry:'')] b2))"
      using f S assms(2) by (simp add: Let_def)
    then show ?thesis using cs by (simp add: console_emit_frame)
  next
    case None
    show ?thesis
    proof (cases "enableRemote (config lg) \<and> LogBuffer_isFull (logBuffer ?lg1)")
      case True
      with None have "Logger_log h lg amb l msg cname meta b = (None, snd (Logger_flush h ?lg1 b2))"
        using f S assms(2) by (auto simp: Let_def)
      then show ?thesis using cs flush_ls [of h ?lg1 b2] by simp
    next
      case False
      with None have "Logger_log h lg amb l msg cname meta b = (None, ?lg1, b2)"
        using f S assms(2) by (auto simp: Let_def)
      then show ?thesis using cs by simp
    qed
  qed
qed

lemma log_store_disabled:
  assumes "\<not> enableStorage (config lg)"
  shows "ls_calls (snd (snd (Logger_log h lg amb l msg cname meta b))) = ls_calls b
       \<and> ls_item (snd (snd (Logger_log h lg amb l msg cname meta b))) = ls_item b"
proof (cases "Logger_shouldLog (config lg) l")
  case False
  then show ?thesis by (simp add: log_below)
next
  case pass: True
  show ?thesis
  proof (cases "enableConsole (config lg) \<and> console_throws h")
    case True
    then show ?thesis using pass by (simp add: log_console_throws)
  next
    case False
    let ?e = "Logger_createLogEntry (config lg) amb l msg cname meta"
    let ?lg1 = "lg\<lparr>logBuffer := LogBuffer_add (logBuffer lg) ?e\<rparr>"
    let ?b1 = "if enableConsole (config lg)
               then b\<lparr>console := console b @ ConsoleAdapter_calls ?e\<rparr> else b"
    have b1: "ls_calls ?b1 = ls_calls b" "ls_item ?b1 = ls_item b" by simp_all
    note f = log_fan_out [OF pass False, of amb msg cname meta b]
    show ?thesis
    proof (cases "enableRemote (config lg) \<and> LogBuffer_isFull (logBuffer ?lg1)")
      case True
      then have "Logger_log h lg amb l msg cname meta b = (None, snd (Logger_flush h ?lg1 ?b1))"
        using f assms by (auto simp: Let_def)
      then show ?thesis using b1 flush_ls [of h ?lg1 ?b1] by simp
    next
      case False
      then have "Logger_log h lg amb l msg cname meta b = (None, ?lg1, ?b1)"
        using f assms by (auto simp: Let_def)
      then show ?thesis using b1 by simp
    qed
  qed
qed

lemma log_sinks_work:
  assumes "Logger_shouldLog (config lg) l" and "\<not> console_throws h"
    and "enableStorage (config lg) \<longrightarrow> setItem_outcome h (length (ls_calls b)) = Stored"
  shows "Logger_log h lg amb l msg cname meta b =
     (let e = Logger_createLogEntry (config lg) amb l msg cname meta;
          lg1 = lg\<lparr>logBuffer := LogBuffer_add (logBuffer lg) e\<rparr>;
          b1 = (if enableConsole (config lg)
                then b\<lparr>console := console b @ ConsoleAdapter_calls e\<rparr> else b);
          kept = keepLast (nat (maxEntries (storageAdapter lg))) (StorageAdapter_retrieve b @ [e]);
          b2 = (if enableStorage (config lg)
                then b1\<lparr>ls_calls := ls_calls b @ [kept], ls_item := Some kept\<rparr>
                else b1)
      in if enableRemote (config lg) \<and> LogBuffer_isFull (logBuffer lg1)
         then Logger_flush h lg1 b2 else (None, lg1, b2))"
proof -
  let ?e = "Logger_createLogEntry (config lg) amb l msg cname meta"
  let ?lg1 = "lg\<lparr>logBuffer := LogBuffer_add (logBuffer lg) ?e\<rparr>"
  let ?b1 = "if enableConsole (config lg)
             then b\<lparr>console := console b @ ConsoleAdapter_calls ?e\<rparr> else b"
  let ?kept = "keepLast (nat (maxEntries (storageAdapter lg))) (StorageAdapter_retrieve b @ [?e])"
  let ?b2 = "if enableStorage (config lg)
             then ?b1\<lparr>ls_calls := ls_calls b @ [?kept], ls_item := Some ?kept\<rparr> else ?b1"
  have nt: "\<not> (enableConsole (config lg) \<and> console_throws h)" using assms(2) by simp
  have b1: "ls_calls ?b1 = ls_calls b" "StorageAdapter_retrieve ?b1 = StorageAdapter_retrieve b"
    by (simp_all add: StorageAdapter_retrieve_def)
  have S: "(if enableStorage (config lg)
            then StorageAdapter_store (stackFrames h) h (storageAdapter lg) ?e ?b1
            else (None, ?b1)) = (None, ?b2)"
  proof (cases "enableStorage (config lg)")
    case False
    then show ?thesis by simp
  next
    case True
    with assms(3) have "setItem_outcome h (length (ls_calls ?b1)) = Stored" by (simp add: b1)
    from store_accepted [OF this, of "stackFrames h" "storageAdapter lg" ?e]
    show ?thesis using True by (simp only: b1 if_True)
  qed
  have fl: "(None, snd (Logger_flush h ?lg1 ?b2)) = Logger_flush h ?lg1 ?b2"
    using flush_quiet [OF assms(2), of ?lg1 ?b2] by (metis prod.collapse)
  have "Logger_log h lg amb l msg cname meta b =
      (if enableRemote (config lg) \<and> LogBuffer_isFull (logBuffer ?lg1)
       then Logger_flush h ?lg1 ?b2 else (None, ?lg1, ?b2))"
    using log_fan_out [OF assms(1) nt, of amb msg cname meta b]
    unfolding Let_def S by (simp only: prod.case option.case fl)
  then show ?thesis by (simp only: Let_def)
qed


text \<open>
  Claim C4, as the code has it. The filter of \<open>log\<close> is the order of the levels: a level
  passes exactly when it is at or above the threshold. Below the threshold \<open>log\<close> returns
  with the logger and the browser as they were: nothing reaches the console, the store
  or the ring buffer. At or above it the sinks are served one after the other. The entry
  is added to the ring buffer (which is then flushed at most when remote delivery is
  enabled and the buffer is full). With the console enabled, either its calls for the
  entry are made, or the console throws and \<open>log\<close> stops there, the browser untouched.
  With storage enabled and unless the console sink threw, \<open>store\<close> is called: its first
  write carries the stored entries with the new one appended, cut to the capacity. With
  storage disabled nothing is written. When no sink fails, the result is written out in
  the last part.
\<close>

theorem level_filter_and_fan_out:
  "(Logger_shouldLog (config lg) l \<longleftrightarrow> severity (level_cfg (config lg)) \<le> severity l)
   \<and> (severity l < severity (level_cfg (config lg))
        \<longrightarrow> Logger_log h lg amb l msg cname meta b = (None, lg, b))
   \<and> (severity (level_cfg (config lg)) \<le> severity l \<longrightarrow>
        (let e = Logger_createLogEntry (config lg) amb l msg cname meta;
             lg1 = lg\<lparr>logBuffer := LogBuffer_add (logBuffer lg) e\<rparr>;
             res = Logger_log h lg amb l msg cname meta b
         in (\<not> (enableRemote (config lg) \<and> LogBuffer_isFull (logBuffer lg1))
               \<longrightarrow> fst (snd res) = lg1)
          \<and> (enableConsole (config lg) \<and> console_throws h \<longrightarrow> res = (None, lg1, b))
          \<and> (enableConsole (config lg) \<and> \<not> console_throws h
               \<longrightarrow> (\<exists>cs. console (snd (snd res)) = console b @ ConsoleAdapter_calls e @ cs))
          \<and> (enableStorage (config lg) \<and> \<not> (enableConsole (config lg) \<and> console_throws h)
               \<longrightarrow> (\<exists>cs. ls_calls (snd (snd res)) =
                          ls_calls b
                          @ keepLast (nat (maxEntries (storageAdapter lg)))
                              (StorageAdapter_retrieve b @ [e]) # cs))
          \<and> (\<not> enableStorage (config lg)
               \<longrightarrow> ls_calls (snd (snd res)) = ls_calls b \<and> ls_item (snd (snd res)) = ls_item b)
          \<and> (\<not> console_throws h
              \<and> (enableStorage (config lg) \<longrightarrow> setItem_outcome h (length (ls_calls b)) = Stored)
               \<longrightarrow> res =
                    (let b1 = (if enableConsole (config lg)
                               then b\<lparr>console := console b @ ConsoleAdapter_calls e\<rparr> else b);
                         kept = keepLast (nat (maxEntries (storageAdapter lg)))
                                  (StorageAdapter_retrieve b @ [e]);
                         b2 = (if enableStorage (config lg)
                               then b1\<lparr>ls_calls := ls_calls b @ [kept], ls_item := Some kept\<rparr>
                               else b1)
                     in if enableRemote (config lg) \<and> LogBuffer_isFull (logBuffer lg1)
                        then Logger_flush h lg1 b2 else (None, lg1, b2)))))"
proof (intro conjI impI)
  show "Logger_shouldLog (config lg) l \<longleftrightarrow> severity (level_cfg (config lg)) \<le> severity l"
    by (rule shouldLog_severity)
next
  assume "severity l < severity (level_cfg (config lg))"
  then have "\<not> Logger_shouldLog (config lg) l" by (simp add: shouldLog_severity)
  then show "Logger_log h lg amb l msg cname meta b = (None, lg, b)" by (rule log_below)
next
  assume "severity (level_cfg (config lg)) \<le> severity l"
  then have pass: "Logger_shouldLog (config lg) l" by (simp add: shouldLog_severity)
  show "let e = Logger_createLogEntry (config lg) amb l msg cname meta;
             lg1 = lg\<lparr>logBuffer := LogBuffer_add (logBuffer lg) e\<rparr>;
             res = Logger_log h lg amb l msg cname meta b
         in (\<not> (enableRemote (config lg) \<and> LogBuffer_isFull (logBuffer lg1))
               \<longrightarrow> fst (snd res) = lg1)
          \<and> (enableConsole (config lg) \<and> console_throws h \<longrightarrow> res = (None, lg1, b))
          \<and> (enableConsole (config lg) \<and> \<not> console_throws h
               \<longrightarrow> (\<exists>cs. console (snd (snd res)) = console b @ ConsoleAdapter_calls e @ cs))
          \<and> (enableStorage (config lg) \<and> \<not> (enableConsole (config lg) \<and> console_throws h)
               \<longrightarrow> (\<exists>cs. ls_calls (snd (snd res)) =
                          ls_calls b
                          @ keepLast (nat (maxEntries (storageAdapter lg)))
                              (StorageAdapter_retrieve b @ [e]) # cs))
          \<and> (\<not> enableStorage (config lg)
               \<longrightarrow> ls_calls (snd (snd res)) = ls_calls b \<and> ls_item (snd (snd res)) = ls_item b)
          \<and> (\<not> console_throws h
              \<and> (enableStorage (config lg) \<longrightarrow> setItem_outcome h (length (ls_calls b)) = Stored)
               \<longrightarrow> res =
                    (let b1 = (if enableConsole (config lg)
                               then b\<lparr>console := console b @ ConsoleAdapter_calls e\<rparr> else b);
                         kept = keepLast (nat (maxEntries (storageAdapter lg)))
                                  (StorageAdapter_retrieve b @ [e]);
                         b2 = (if enableStorage (config lg)
                               then b1\<lparr>ls_calls := ls_calls b @ [kept], ls_item := Some kept\<rparr>
                               else b1)
                     in if enableRemote (config lg) \<and> LogBuffer_isFull (logBuffer lg1)
                        then Logger_flush h lg1 b2 else (None, lg1, b2)))"
    unfolding Let_def
  proof (intro conjI impI)
    assume "\<not> (enableRemote (config lg) \<and> LogBuffer_isFull (logBuffer
        (lg\<lparr>logBuffer := LogBuffer_add (logBuffer lg)
              (Logger_createLogEntry (config lg) amb l msg cname meta)\<rparr>)))"
    then show "fst (snd (Logger_log h lg amb l msg cname meta b)) =
        lg\<lparr>logBuffer := LogBuffer_add (logBuffer lg)
              (Logger_createLogEntry (config lg) amb l msg cname meta)\<rparr>"
      by (intro log_ring_buffer [OF pass]) simp
  next
    assume "enableConsole (config lg) \<and> console_throws h"
    then show "Logger_log h lg amb l msg cname meta b =
        (None, lg\<lparr>logBuffer := LogBuffer_add (logBuffer lg)
              (Logger_createLogEntry (config lg) amb l msg cname meta)\<rparr>, b)"
      using pass by (intro log_console_throws) simp_all
  next
    assume "enableConsole (config lg) \<and> \<not> console_throws h"
    then show "\<exists>cs. console (snd (snd (Logger_log h lg amb l msg cname meta b))) =
        console b @ ConsoleAdapter_calls (Logger_createLogEntry (config lg) amb l msg cname meta) @ cs"
      using pass by (intro log_console_offered) simp_all
  next
    assume "enableStorage (config lg) \<and> \<not> (enableConsole (config lg) \<and> console_throws h)"
    then show "\<exists>cs. ls_calls (snd (snd (Logger_log h lg amb l msg cname meta b))) =
        ls_calls b
        @ keepLast (nat (maxEntries (storageAdapter lg)))
            (StorageAdapter_retrieve b @ [Logger_createLogEntry (config lg) amb l msg cname meta])
        # cs"
      using pass by (intro log_store_offered) simp_all
  next
    assume "\<not> enableStorage (config lg)"
    then show "ls_calls (snd (snd (Logger_log h lg amb l msg cname meta b))) = ls_calls b"
      and "ls_item (snd (snd (Logger_log h lg amb l msg cname meta b))) = ls_item b"
      using log_store_disabled [of lg h amb l msg cname meta b] by simp_all
  next
    assume "\<not> console_throws h
        \<and> (enableStorage (config lg) \<longrightarrow> setItem_outcome h (length (ls_calls b)) = Stored)"
    then have nc: "\<not> console_throws h"
      and st: "enableStorage (config lg) \<longrightarrow> setItem_outcome h (length (ls_calls b)) = Stored"
      by simp_all
    show "Logger_log h lg amb l msg cname meta b =
        (if enableRemote (config lg) \<and> LogBuffer_isFull (logBuffer
              (lg\<lparr>logBuffer := LogBuffer_add (logBuffer lg)
                    (Logger_createLogEntry (config lg) amb l msg cname meta)\<rparr>))
         then Logger_flush h
               (lg\<lparr>logBuffer := LogBuffer_add (logBuffer lg)
                     (Logger_createLogEntry (config lg) amb l msg cname meta)\<rparr>)
               (if enableStorage (config lg)
                then (if enableConsole (config lg)
                      then b\<lparr>console := console b @ ConsoleAdapter_calls
                               (Logger_createLogEntry (config lg) amb l msg cname meta)\<rparr>
                      else b)
                     \<lparr>ls_calls := ls_calls b
                        @ [keepLast (nat (maxEntries (storageAdapter lg)))
                             (StorageAdapter_retrieve b
                              @ [Logger_createLogEntry (config lg) amb l msg cname meta])],
                      ls_item := Some (keepLast (nat (maxEntries (storageAdapter lg)))
                             (StorageAdapter_retrieve b
                              @ [Logger_createLogEntry (config lg) amb l msg cname meta]))\<rparr>
                else if enableConsole (config lg)
                     then b\<lparr>console := console b @ ConsoleAdapter_calls
                              (Logger_createLogEntry (config lg) amb l msg cname meta)\<rparr>
                     else b)
         else (None,
               lg\<lparr>logBuffer := LogBuffer_add (logBuffer lg)
                     (Logger_createLogEntry (config lg) amb l msg cname meta)\<rparr>,
               if enableStorage (config lg)
                then (if enableConsole (config lg)
                      then b\<lparr>console := console b @ ConsoleAdapter_calls
                               (Logger_createLogEntry (config lg) amb l msg cname meta)\<rparr>
                      else b)
                     \<lparr>ls_calls := ls_calls b
                        @ [keepLast (nat (maxEntries (storageAdapter lg)))
                             (StorageAdapter_retrieve b
                              @ [Logger_createLogEntry (config lg) amb l msg cname meta])],
                      ls_item := Some (keepLast (nat (maxEntries (storageAdapter lg)))
                             (StorageAdapter_retrieve b
                              @ [Logger_createLogEntry (config lg) amb l msg cname meta]))\<rparr>
                else if enableConsole (config lg)
                     then b\<lparr>console := console b @ ConsoleAdapter_calls
                              (Logger_createLogEntry (config lg) amb l msg cname meta)\<rparr>
                     else b))"
      using log_sinks_work [OF pass nc st, of amb msg cname meta] by (simp only: Let_def)
  qed
qed


theorem level_filter_and_fan_out_witness:
  "severity DEBUG < severity (level_cfg (config plain_logger))
   \<and> Logger_log accepting_host plain_logger sample_ambient DEBUG ''cache hit'' None None fresh_browser
       = (None, plain_logger, fresh_browser)
   \<and> severity (level_cfg (config plain_logger)) \<le> severity WARN
   \<and> \<not> console_throws accepting_host
   \<and> setItem_outcome accepting_host (length (ls_calls fresh_browser)) = Stored
   \<and> Logger_log accepting_host plain_logger sample_ambient WARN ''disk low'' None None fresh_browser
       = (None,
           plain_logger\<lparr>logBuffer := \<lparr>buffer =
              [Logger_createLogEntry defaultConfig sample_ambient WARN ''disk low'' None None],
              maxSize = 50\<rparr>\<rparr>,
           fresh_browser\<lparr>ls_item := Some
              [Logger_createLogEntry defaultConfig sample_ambient WARN ''disk low'' None None],
             ls_calls :=
              [[Logger_createLogEntry defaultConfig sample_ambient WARN ''disk low'' None None]],
             console := [(Console_warn, BaseMessage
               (Logger_createLogEntry defaultConfig sample_ambient WARN ''disk low'' None None))]\<rparr>)
   \<and> enableConsole (config plain_logger) \<and> console_throws hostile_host
   \<and> Logger_log hostile_host plain_logger sample_ambient WARN ''disk low'' None None fresh_browser
       = (None,
           plain_logger\<lparr>logBuffer := LogBuffer_add (logBuffer plain_logger)
              (Logger_createLogEntry (config plain_logger) sample_ambient WARN ''disk low'' None None)\<rparr>,
           fresh_browser)
   \<and> \<not> enableStorage (config unstored_logger)
   \<and> ls_calls (snd (snd (Logger_log accepting_host unstored_logger sample_ambient WARN
          ''disk low'' None None fresh_browser))) = ls_calls fresh_browser"
proof -
  have lvl: "level_cfg (config plain_logger) = INFO" "level_cfg (config unstored_logger) = INFO"
    by (simp_all add: plain_logger_def unstored_logger_def defaultConfig_def)
  have h1: "severity DEBUG < severity (level_cfg (config plain_logger))" by (simp add: lvl)
  have h2: "severity (level_cfg (config plain_logger)) \<le> severity WARN"
    and h2': "severity (level_cfg (config unstored_logger)) \<le> severity WARN" by (simp_all add: lvl)
  have h3: "\<not> console_throws accepting_host"
    and h4: "setItem_outcome accepting_host (length (ls_calls fresh_browser)) = Stored"
    by (simp_all add: accepting_host_def)
  have h5: "enableConsole (config plain_logger)" "console_throws hostile_host"
    by (simp_all add: plain_logger_def defaultConfig_def hostile_host_def)
  have h6: "\<not> enableStorage (config unstored_logger)"
    by (simp add: unstored_logger_def)
  note below = level_filter_and_fan_out [of plain_logger DEBUG accepting_host sample_ambient
      "''cache hit''" None None fresh_browser, unfolded Let_def]
  note above = level_filter_and_fan_out [of plain_logger WARN accepting_host sample_ambient
      "''disk low''" None None fresh_browser, unfolded Let_def]
  note broken = level_filter_and_fan_out [of plain_logger WARN hostile_host sample_ambient
      "''disk low''" None None fresh_browser, unfolded Let_def]
  note unstored = level_filter_and_fan_out [of unstored_logger WARN accepting_host sample_ambient
      "''disk low''" None None fresh_browser, unfolded Let_def]
  from below h1 have a:
    "Logger_log accepting_host plain_logger sample_ambient DEBUG ''cache hit'' None None fresh_browser
       = (None, plain_logger, fresh_browser)" by blast
  let ?e = "Logger_createLogEntry (config plain_logger) sample_ambient WARN ''disk low'' None None"
  let ?lg1 = "plain_logger\<lparr>logBuffer := LogBuffer_add (logBuffer plain_logger) ?e\<rparr>"
  let ?kept = "keepLast (nat (maxEntries (storageAdapter plain_logger)))
                 (StorageAdapter_retrieve fresh_browser @ [?e])"
  let ?b1 = "if enableConsole (config plain_logger)
             then fresh_browser\<lparr>console := console fresh_browser @ ConsoleAdapter_calls ?e\<rparr>
             else fresh_browser"
  let ?b2 = "if enableStorage (config plain_logger)
             then ?b1\<lparr>ls_calls := ls_calls fresh_browser @ [?kept], ls_item := Some ?kept\<rparr>
             else ?b1"
  from above h2 h3 h4 have
    "Logger_log accepting_host plain_logger sample_ambient WARN ''disk low'' None None fresh_browser =
      (if enableRemote (config plain_logger) \<and> LogBuffer_isFull (logBuffer ?lg1)
       then Logger_flush accepting_host ?lg1 ?b2 else (None, ?lg1, ?b2))"
    by blast
  then have b:
    "Logger_log accepting_host plain_logger sample_ambient WARN ''disk low'' None None fresh_browser
       = (None,
           plain_logger\<lparr>logBuffer := \<lparr>buffer =
              [Logger_createLogEntry defaultConfig sample_ambient WARN ''disk low'' None None],
              maxSize = 50\<rparr>\<rparr>,
           fresh_browser\<lparr>ls_item := Some
              [Logger_createLogEntry defaultConfig sample_ambient WARN ''disk low'' None None],
             ls_calls :=
              [[Logger_createLogEntry defaultConfig sample_ambient WARN ''disk low'' None None]],
             console := [(Console_warn, BaseMessage
               (Logger_createLogEntry defaultConfig sample_ambient WARN ''disk low'' None None))]\<rparr>)"
    by (simp add: plain_logger_def defaultConfig_def LogBuffer_add_def LogBuffer_new_def
        StorageAdapter_new_def StorageAdapter_retrieve_def fresh_browser_def keepLast_def
        ConsoleAdapter_calls_def console_method_of_def Logger_createLogEntry_def Let_def)
  from broken h2 h5 have c:
    "Logger_log hostile_host plain_logger sample_ambient WARN ''disk low'' None None fresh_browser
       = (None, ?lg1, fresh_browser)" by blast
  from unstored h2' h6 have d:
    "ls_calls (snd (snd (Logger_log accepting_host unstored_logger sample_ambient WARN
          ''disk low'' None None fresh_browser))) = ls_calls fresh_browser" by blast
  show ?thesis using h1 a h2 h3 h4 b h5 c h6 d by (intro conjI)
qed

text \<open>
  A logger with console and storage enabled, on a host whose console throws: \<open>log\<close> at
  WARN, above the threshold INFO, leaves the browser as it was. No call of \<open>setItem\<close> is
  made: the entry is not handed to the store.
\<close>

theorem console_failure_skips_store:
  "enableConsole (config plain_logger) \<and> enableStorage (config plain_logger)
   \<and> severity (level_cfg (config plain_logger)) \<le> severity WARN
   \<and> console_throws hostile_host
   \<and> snd (snd (Logger_log hostile_host plain_logger sample_ambient WARN ''disk low''
                  None None fresh_browser)) = fresh_browser
   \<and> ls_calls fresh_browser = []"
proof -
  have cfg: "enableConsole (config plain_logger)" "enableStorage (config plain_logger)"
    "severity (level_cfg (config plain_logger)) \<le> severity WARN"
    by (simp_all add: plain_logger_def defaultConfig_def)
  have thr: "console_throws hostile_host" by (simp add: hostile_host_def)
  have pass: "Logger_shouldLog (config plain_logger) WARN"
    using cfg(3) by (simp add: shouldLog_severity)
  have "snd (snd (Logger_log hostile_host plain_logger sample_ambient WARN ''disk low''
                  None None fresh_browser)) = fresh_browser"
    by (simp add: log_console_throws [OF pass cfg(1) thr])
  moreover have "ls_calls fresh_browser = []" by (simp add: fresh_browser_def)
  ultimately show ?thesis using cfg thr by (intro conjI)
qed

section \<open>\<open>log\<close> does not throw\<close>

lemma log_returns_normally:
  "fst (Logger_log h lg amb l msg cname meta b) = None"
proof (cases "Logger_shouldLog (config lg) l")
  case False
  then show ?thesis by (simp add: log_below)
next
  case pass: True
  show ?thesis
  proof (cases "enableConsole (config lg) \<and> console_throws h")
    case True
    then show ?thesis using pass by (simp add: log_console_throws)
  next
    case False
    let ?e = "Logger_createLogEntry (config lg) amb l msg cname meta"
    let ?b1 = "if enableConsole (config lg)
               then b\<lparr>console := console b @ ConsoleAdapter_calls ?e\<rparr> else b"
    obtain r b2 where "(if enableStorage (config lg)
               then StorageAdapter_store (stackFrames h) h (storageAdapter lg) ?e ?b1
               else (None, ?b1)) = (r, b2)"
      by (metis surj_pair)
    then show ?thesis
      using log_fan_out [OF pass False, of amb msg cname meta b]
      by (cases r) (auto simp: Let_def)
  qed
qed

lemma log_persistent_quota:
  assumes "Logger_shouldLog (config lg) l" and "enableStorage (config lg)"
    and "\<not> console_throws h" and "\<forall>k. setItem_outcome h k = QuotaExceeded"
  shows "fst (snd (Logger_log h lg amb l msg cname meta b)) =
           lg\<lparr>logBuffer := LogBuffer_add (logBuffer lg)
                 (Logger_createLogEntry (config lg) amb l msg cname meta)\<rparr>
       \<and> console (snd (snd (Logger_log h lg amb l msg cname meta b))) =
           console b
           @ (if enableConsole (config lg)
              then ConsoleAdapter_calls (Logger_createLogEntry (config lg) amb l msg cname meta)
              else [])
           @ [(Console_error, Text ''Failed to process log entry:'')]
       \<and> requests (snd (snd (Logger_log h lg amb l msg cname meta b))) = requests b
       \<and> ls_item (snd (snd (Logger_log h lg amb l msg cname meta b))) = None
       \<and> length (ls_calls (snd (snd (Logger_log h lg amb l msg cname meta b)))) =
           length (ls_calls b) + 2 * Suc (stackFrames h)"
proof -
  let ?e = "Logger_createLogEntry (config lg) amb l msg cname meta"
  let ?lg1 = "lg\<lparr>logBuffer := LogBuffer_add (logBuffer lg) ?e\<rparr>"
  let ?b1 = "if enableConsole (config lg)
             then b\<lparr>console := console b @ ConsoleAdapter_calls ?e\<rparr> else b"
  let ?S = "StorageAdapter_store (stackFrames h) h (storageAdapter lg) ?e ?b1"
  note q = store_persistent_quota [OF assms(4), of "stackFrames h" "storageAdapter lg" ?e ?b1]
  obtain b2 where S: "?S = (Some RangeError, b2)"
    using q by (metis prod.collapse)
  have nt: "\<not> (enableConsole (config lg) \<and> console_throws h)" using assms(3) by simp
  have "Logger_log h lg amb l msg cname meta b =
      (None, ?lg1, snd (console_emit h [(Console_error, Text ''Failed to process log entry:'')] b2))"
    using log_fan_out [OF assms(1) nt, of amb msg cname meta b] S assms(2)
    by (simp add: Let_def)
  then have res: "Logger_log h lg amb l msg cname meta b =
      (None, ?lg1, b2\<lparr>console := console b2 @ [(Console_error, Text ''Failed to process log entry:'')]\<rparr>)"
    using assms(3) by (simp add: console_emit_def)
  have b2: "console b2 = console ?b1" "requests b2 = requests ?b1" "ls_item b2 = None"
    "length (ls_calls b2) = length (ls_calls ?b1) + 2 * Suc (stackFrames h)"
    using q S by simp_all
  show ?thesis unfolding res using b2 by simp
qed

lemma flush_hostile_example:
  "fst (Logger_flush hostile_host remote_logger fresh_browser) = Some ConsoleFailure"
proof -
  let ?S = "RemoteAdapter_sendBatch hostile_host (remoteAdapter remote_logger)
              (buffer (logBuffer remote_logger)) fresh_browser"
  have "\<exists>err. fst ?S = Some err"
    using sendBatch_all_fail [of "remoteAdapter remote_logger" "buffer (logBuffer remote_logger)"
        hostile_host fresh_browser]
    by (simp add: remote_logger_def RemoteAdapter_new_def hostile_host_def succeeded_def)
  then obtain err b1 where sb: "?S = (Some err, b1)" by (metis prod.collapse)
  have rl: "enableRemote (config remote_logger)" "LogBuffer_size (logBuffer remote_logger) > 0"
    "LogBuffer_flush (logBuffer remote_logger)
       = (buffer (logBuffer remote_logger), (logBuffer remote_logger)\<lparr>buffer := []\<rparr>)"
    by (simp_all add: remote_logger_def LogBuffer_size_def LogBuffer_flush_def)
  have "Logger_flush hostile_host remote_logger fresh_browser =
          Logger_flush_catch hostile_host (buffer (logBuffer remote_logger))
            (remote_logger\<lparr>logBuffer := (logBuffer remote_logger)\<lparr>buffer := []\<rparr>\<rparr>) b1"
    using rl sb by (simp add: Logger_flush_def Let_def)
  then show ?thesis
    by (simp add: Logger_flush_catch_def console_emit_def hostile_host_def Let_def)
qed

text \<open>
  Claim C9. Whatever the level, message, component and metadata are, and whatever the
  console, the store and the network do, \<open>log\<close> returns and throws nothing to its caller.
  When the console sink throws, \<open>log\<close> returns after the entry has gone to the ring
  buffer. When every write of the store is refused for quota, \<open>store\<close> ends by throwing
  \<open>RangeError\<close>, and \<open>log\<close> returns with the rejection reported on \<open>console.error\<close>, the
  entry in the ring buffer and nothing sent. A failed transmission does not leave \<open>flush\<close>
  unless the console throws.
\<close>

theorem log_never_throws:
  "fst (Logger_log h lg amb l msg cname meta b) = None
   \<and> (Logger_shouldLog (config lg) l \<and> enableConsole (config lg) \<and> console_throws h
        \<longrightarrow> Logger_log h lg amb l msg cname meta b =
             (None, lg\<lparr>logBuffer := LogBuffer_add (logBuffer lg)
                         (Logger_createLogEntry (config lg) amb l msg cname meta)\<rparr>, b))
   \<and> (Logger_shouldLog (config lg) l \<and> enableStorage (config lg) \<and> \<not> console_throws h
        \<and> (\<forall>k. setItem_outcome h k = QuotaExceeded)
        \<longrightarrow> fst (snd (Logger_log h lg amb l msg cname meta b)) =
               lg\<lparr>logBuffer := LogBuffer_add (logBuffer lg)
                     (Logger_createLogEntry (config lg) amb l msg cname meta)\<rparr>
           \<and> console (snd (snd (Logger_log h lg amb l msg cname meta b))) =
               console b
               @ (if enableConsole (config lg)
                  then ConsoleAdapter_calls (Logger_createLogEntry (config lg) amb l msg cname meta)
                  else [])
               @ [(Console_error, Text ''Failed to process log entry:'')]
           \<and> requests (snd (snd (Logger_log h lg amb l msg cname meta b))) = requests b
           \<and> ls_item (snd (snd (Logger_log h lg amb l msg cname meta b))) = None
           \<and> length (ls_calls (snd (snd (Logger_log h lg amb l msg cname meta b)))) =
               length (ls_calls b) + 2 * Suc (stackFrames h))
   \<and> (fst (Logger_flush h lg b) \<noteq> None \<longrightarrow> console_throws h)"
proof (intro conjI impI)
  show "fst (Logger_log h lg amb l msg cname meta b) = None" by (rule log_returns_normally)
next
  assume "Logger_shouldLog (config lg) l \<and> enableConsole (config lg) \<and> console_throws h"
  then show "Logger_log h lg amb l msg cname meta b =
             (None, lg\<lparr>logBuffer := LogBuffer_add (logBuffer lg)
                         (Logger_createLogEntry (config lg) amb l msg cname meta)\<rparr>, b)"
    by (intro log_console_throws) simp_all
next
  assume a: "Logger_shouldLog (config lg) l \<and> enableStorage (config lg) \<and> \<not> console_throws h
        \<and> (\<forall>k. setItem_outcome h k = QuotaExceeded)"
  then have p: "Logger_shouldLog (config lg) l" and s: "enableStorage (config lg)"
    and c: "\<not> console_throws h" and q: "\<forall>k. setItem_outcome h k = QuotaExceeded"
    by simp_all
  note t = log_persistent_quota [OF p s c q, of amb msg cname meta b]
  from t show "fst (snd (Logger_log h lg amb l msg cname meta b)) =
               lg\<lparr>logBuffer := LogBuffer_add (logBuffer lg)
                     (Logger_createLogEntry (config lg) amb l msg cname meta)\<rparr>" by blast
  from t show "console (snd (snd (Logger_log h lg amb l msg cname meta b))) =
               console b
               @ (if enableConsole (config lg)
                  then ConsoleAdapter_calls (Logger_createLogEntry (config lg) amb l msg cname meta)
                  else [])
               @ [(Console_error, Text ''Failed to process log entry:'')]" by blast
  from t show "requests (snd (snd (Logger_log h lg amb l msg cname meta b))) = requests b" by blast
  from t show "ls_item (snd (snd (Logger_log h lg amb l msg cname meta b))) = None" by blast
  from t show "length (ls_calls (snd (snd (Logger_log h lg amb l msg cname meta b)))) =
               length (ls_calls b) + 2 * Suc (stackFrames h)" by blast
next
  assume "fst (Logger_flush h lg b) \<noteq> None"
  then show "console_throws h" by (rule contrapos_np) (rule flush_quiet)
qed

theorem log_never_throws_witness:
  "Logger_shouldLog (config remote_logger) ERROR \<and> enableStorage (config remote_logger)
   \<and> \<not> console_throws exhausted_host
   \<and> (\<forall>k. setItem_outcome exhausted_host k = QuotaExceeded)
   \<and> fst (Logger_log exhausted_host remote_logger sample_ambient ERROR ''boom'' None None
            fresh_browser) = None
   \<and> ls_item (snd (snd (Logger_log exhausted_host remote_logger sample_ambient ERROR ''boom''
            None None fresh_browser))) = None
   \<and> length (ls_calls (snd (snd (Logger_log exhausted_host remote_logger sample_ambient ERROR
            ''boom'' None None fresh_browser)))) = 8
   \<and> enableConsole (config remote_logger) \<and> console_throws hostile_host
   \<and> Logger_log hostile_host remote_logger sample_ambient ERROR ''boom'' None None fresh_browser
       = (None, remote_logger\<lparr>logBuffer := LogBuffer_add (logBuffer remote_logger)
            (Logger_createLogEntry (config remote_logger) sample_ambient ERROR ''boom'' None None)\<rparr>,
          fresh_browser)
   \<and> fst (Logger_flush hostile_host remote_logger fresh_browser) \<noteq> None"
proof -
  have cfg: "Logger_shouldLog (config remote_logger) ERROR" "enableStorage (config remote_logger)"
    "enableConsole (config remote_logger)"
    by (simp_all add: remote_logger_def defaultConfig_def Logger_shouldLog_def Let_def)
  have ex: "\<not> console_throws exhausted_host" "\<forall>k. setItem_outcome exhausted_host k = QuotaExceeded"
    "stackFrames exhausted_host = 3"
    by (simp_all add: exhausted_host_def)
  have fl: "fst (Logger_flush hostile_host remote_logger fresh_browser) \<noteq> None"
    by (simp add: flush_hostile_example)
  note quota = log_never_throws [of exhausted_host remote_logger sample_ambient ERROR "''boom''"
      None None fresh_browser]
  note broken = log_never_throws [of hostile_host remote_logger sample_ambient ERROR "''boom''"
      None None fresh_browser]
  from quota have a: "fst (Logger_log exhausted_host remote_logger sample_ambient ERROR ''boom''
      None None fresh_browser) = None" by blast
  from quota cfg ex have b: "ls_item (snd (snd (Logger_log exhausted_host remote_logger
      sample_ambient ERROR ''boom'' None None fresh_browser))) = None" by blast
  from quota cfg ex have "length (ls_calls (snd (snd (Logger_log exhausted_host remote_logger
      sample_ambient ERROR ''boom'' None None fresh_browser)))) =
      length (ls_calls fresh_browser) + 2 * Suc (stackFrames exhausted_host)" by blast
  then have c: "length (ls_calls (snd (snd (Logger_log exhausted_host remote_logger
      sample_ambient ERROR ''boom'' None None fresh_browser)))) = 8"
    by (simp add: ex fresh_browser_def)
  from broken fl have ho: "console_throws hostile_host" by blast
  from broken cfg ho have d:
    "Logger_log hostile_host remote_logger sample_ambient ERROR ''boom'' None None fresh_browser
       = (None, remote_logger\<lparr>logBuffer := LogBuffer_add (logBuffer remote_logger)
            (Logger_createLogEntry (config remote_logger) sample_ambient ERROR ''boom'' None None)\<rparr>,
          fresh_browser)" by blast
  show ?thesis using cfg(1,2) ex(1,2) a b c cfg(3) ho d fl by (intro conjI)
qed


end
